theory Spec2Isabelle
  imports Main "HOL-Library.Word"
begin

section \<open>The executor of asynchronous tasks (misc/Executor.c)\<close>

text \<open>
  The store of the program is modelled explicitly. A pointer is a 64-bit address, the
  null pointer is the address 0, and the heap of \<open>Job\<close> structures is a function from
  addresses to job records. Every call that leaves the file (the threads library, the
  logging module, the future module, the job's own run and halt functions) appends an
  event to a trace, so that the order of the calls can be stated; the value such a call
  returns is read from an environment, as a function of the trace so far.

  The functions that create and destroy the executor and its list, the completion
  handler and the end of \<open>executor_run\<close> after \<open>job_run\<close> are not part of the model.
\<close>

subsection \<open>Data\<close>

type_synonym addr = "64 word"

abbreviation NULL :: addr where
  "NULL \<equiv> 0"

text \<open>Constants of the C library (their Linux values).\<close>

definition EPERM :: int where
  "EPERM = 1"

definition ESRCH :: int where
  "ESRCH = 3"

definition SIGTERM :: int where
  "SIGTERM = 15"

datatype JobState = JOB_INITIALIZED | JOB_EXECUTING | JOB_COMPLETED

text \<open>
  The member \<open>halt\<close> of a job is a function pointer: either the address of
  \<open>job_defaultHaltFunc\<close> or the one of a function of the caller, named by a number.
\<close>

datatype halt_fn = Job_defaultHaltFunc | User_halt nat

text \<open>
  \<open>struct job\<close>. The mutex and the condition variable are not fields of the model: a
  region of the code between \<open>job_lock\<close> and \<open>job_unlock\<close> is one atomic step, and both
  calls are events of the trace. The member \<open>executor\<close> is left out because the store
  holds one executor. The member \<open>next\<close> is named \<open>next_job\<close>.
\<close>

record job =
  thread :: nat
  obj :: addr
  run :: nat
  halt :: halt_fn
  future :: addr
  prev :: addr
  next_job :: addr
  state :: JobState
  canceled :: bool

text \<open>\<open>struct jobList\<close>; the member \<open>size\<close> is a \<open>size_t\<close> and is named \<open>size_jl\<close>.\<close>

record jobList =
  head :: addr
  tail :: addr
  size_jl :: "64 word"

text \<open>
  Modelled from the spec: the future module (Future.c) is not part of the sources. A
  future holds a back-reference to its job, set by \<open>future_setJob\<close>, and a result slot
  (status, result pointer, canceled indication) that \<open>future_setResult\<close> publishes once.
\<close>

record future_rec =
  fjob :: addr
  fresult :: "(int \<times> addr \<times> bool) option"

datatype event =
    Job_lock addr
  | Job_unlock addr
  | Executor_lock
  | Executor_unlock
  | Pthread_kill nat int
  | Pthread_create addr int
  | Pthread_detach nat
  | Call_run addr nat addr
  | Call_halt halt_fn addr nat
  | Log_add string
  | Log_add_errno int string
  | Log_error_1 string int
  | Log_malloc addr
  | Mutex_init addr
  | Mutex_destroy addr
  | Cond_init addr
  | Cond_destroy addr
  | Free addr
  | Future_new addr
  | Future_setJob addr addr
  | Future_setResult addr int addr bool
  | Future_cancel addr
  | Future_free addr

text \<open>
  The worker thread of a job: its thread identity, where it stands in \<open>job_run\<close>, and
  the local variables \<open>status\<close> and \<open>result\<close> of \<open>job_run\<close> (named \<open>run_status\<close> and
  \<open>run_result\<close>).
\<close>

datatype label = At_entry | At_call | At_completion | At_remove | At_publish | Returned

record worker =
  tid :: nat
  pc :: label
  run_status :: int
  run_result :: addr

text \<open>The store: the heap of jobs, the executor's members, the futures, the threads.\<close>

record sys =
  jobs :: "addr \<Rightarrow> job"
  jobList :: jobList
  isShutdown :: bool
  futures :: "addr \<Rightarrow> future_rec"
  workers :: "addr \<Rightarrow> worker"
  trace :: "event list"

text \<open>The environment: what each external call returns, given the trace so far.\<close>

record env =
  pthread_kill :: "event list \<Rightarrow> nat \<Rightarrow> int \<Rightarrow> int"
  pthread_create :: "event list \<Rightarrow> addr \<Rightarrow> int \<times> nat"
  user_run :: "event list \<Rightarrow> nat \<Rightarrow> addr \<Rightarrow> int \<times> addr"
  user_halt :: "event list \<Rightarrow> nat \<Rightarrow> addr \<Rightarrow> nat \<Rightarrow> int"
  log_malloc :: "event list \<Rightarrow> addr"
  mutex_init :: "event list \<Rightarrow> int"
  pthread_cond_init :: "event list \<Rightarrow> int"
  future_new :: "event list \<Rightarrow> addr"

definition emit :: "event \<Rightarrow> sys \<Rightarrow> sys" where
  "emit e s = s\<lparr>trace := trace s @ [e]\<rparr>"

definition upd_worker :: "addr \<Rightarrow> (worker \<Rightarrow> worker) \<Rightarrow> sys \<Rightarrow> sys" where
  "upd_worker j f s = s\<lparr>workers := (workers s)(j := f (workers s j))\<rparr>"

definition upd_jobList :: "(jobList \<Rightarrow> jobList) \<Rightarrow> sys \<Rightarrow> sys" where
  "upd_jobList f s = s\<lparr>jobList := f (jobList s)\<rparr>"

definition upd_job :: "addr \<Rightarrow> (job \<Rightarrow> job) \<Rightarrow> sys \<Rightarrow> sys" where
  "upd_job j f s = s\<lparr>jobs := (jobs s)(j := f (jobs s j))\<rparr>"

subsection \<open>Jobs\<close>

text \<open>
  \<open>job_defaultHaltFunc\<close>: \<open>pthread_kill(thread, SIGTERM)\<close>; the status \<open>ESRCH\<close> becomes 0,
  any other non-zero status is logged and returned.
\<close>

definition job_defaultHaltFunc :: "env \<Rightarrow> addr \<Rightarrow> nat \<Rightarrow> sys \<Rightarrow> int \<times> sys" where
  "job_defaultHaltFunc E ob thr s =
     (let status = pthread_kill E (trace s) thr SIGTERM;
          s1 = emit (Pthread_kill thr SIGTERM) s
      in if status \<noteq> 0
         then (if status = ESRCH then (0, s1)
               else (status, emit (Log_add_errno status ''Couldn't signal job's thread'') s1))
         else (status, s1))"

text \<open>The call \<open>job->halt(job->obj, job->thread)\<close> through the function pointer.\<close>

definition call_halt :: "env \<Rightarrow> halt_fn \<Rightarrow> addr \<Rightarrow> nat \<Rightarrow> sys \<Rightarrow> int \<times> sys" where
  "call_halt E h ob thr s =
     (let s1 = emit (Call_halt h ob thr) s
      in case h of
           Job_defaultHaltFunc \<Rightarrow> job_defaultHaltFunc E ob thr s1
         | User_halt f \<Rightarrow> (user_halt E (trace s1) f ob thr, s1))"

text \<open>
  \<open>job_cancel\<close>. The assertion that the state is \<open>JOB_EXECUTING\<close> in the last branch
  holds by the two tests before it.
\<close>

definition job_cancel :: "env \<Rightarrow> addr \<Rightarrow> sys \<Rightarrow> int \<times> sys" where
  "job_cancel E j s =
     (let s1 = emit (Job_lock j) s
      in if state (jobs s1 j) = JOB_COMPLETED
         then (0, emit (Job_unlock j) s1)
         else
           (let s2 = upd_job j (\<lambda>b. b\<lparr>canceled := True\<rparr>) s1
            in if state (jobs s2 j) = JOB_INITIALIZED
               then (0, emit (Job_unlock j) s2)
               else
                 (let s3 = emit (Job_unlock j) s2;
                      (status, s4) =
                         call_halt E (halt (jobs s3 j)) (obj (jobs s3 j)) (thread (jobs s3 j)) s3
                  in if status \<noteq> 0
                     then (status, emit (Log_error_1 ''Job's halt function returned %d'' status) s4)
                     else (status, s4))))"

text \<open>
  Modelled from the spec: \<open>future_setJob\<close> of the future module, which is not part of the
  sources. It binds the back-reference of the future to the job.
\<close>

definition future_setJob :: "addr \<Rightarrow> addr \<Rightarrow> sys \<Rightarrow> sys" where
  "future_setJob f j s =
     (let s1 = emit (Future_setJob f j) s
      in s1\<lparr>futures := (futures s1)(f := (futures s1 f)\<lparr>fjob := j\<rparr>)\<rparr>)"

text \<open>
  Modelled from the spec: \<open>future_setResult\<close> of the future module, which is not part of
  the sources. It publishes the result once; a later call is an error and publishes
  nothing.
\<close>

definition future_setResult :: "addr \<Rightarrow> int \<Rightarrow> addr \<Rightarrow> bool \<Rightarrow> sys \<Rightarrow> sys" where
  "future_setResult f st r c s =
     (let s1 = emit (Future_setResult f st r c) s
      in if fresult (futures s1 f) = None
         then s1\<lparr>futures := (futures s1)(f := (futures s1 f)\<lparr>fresult := Some (st, r, c)\<rparr>)\<rparr>
         else s1)"

text \<open>
  Modelled from the spec: \<open>future_cancel\<close> of the future module, which is not part of the
  sources. It delegates to \<open>job_cancel\<close> on the bound job.
\<close>

definition future_cancel :: "env \<Rightarrow> addr \<Rightarrow> sys \<Rightarrow> int \<times> sys" where
  "future_cancel E f s = job_cancel E (fjob (futures s f)) (emit (Future_cancel f) s)"

text \<open>
  Modelled from the spec: \<open>future_free\<close> of the future module, which is not part of the
  sources. It releases the future only, never its job.
\<close>

definition future_free :: "addr \<Rightarrow> sys \<Rightarrow> sys" where
  "future_free f s = emit (Future_free f) s"

text \<open>
  \<open>job_new\<close>. The member \<open>thread\<close> is not initialised. The argument \<open>hl\<close> is the optional
  halt function (\<open>None\<close> is the null pointer).
\<close>

definition job_new :: "env \<Rightarrow> addr \<Rightarrow> addr \<Rightarrow> nat \<Rightarrow> nat option \<Rightarrow> sys \<Rightarrow> addr \<times> sys" where
  "job_new E fut ob rn hl s =
     (let jb = log_malloc E (trace s);
          s0 = emit (Log_malloc jb) s
      in if jb \<noteq> NULL
         then
           (let s1 = upd_job jb (\<lambda>b. b\<lparr>obj := ob, run := rn,
                        halt := (case hl of Some h \<Rightarrow> User_halt h | None \<Rightarrow> Job_defaultHaltFunc),
                        prev := NULL, next_job := NULL, future := fut,
                        canceled := False, state := JOB_INITIALIZED\<rparr>) s0;
                s2 = future_setJob fut jb s1;
                st = mutex_init E (trace s2);
                s3 = emit (Mutex_init jb) s2;
                (st', s4) =
                   (if st \<noteq> 0
                    then (st, emit (Log_add ''Couldn't initialize job's mutex'') s3)
                    else
                      (let st2 = pthread_cond_init E (trace s3);
                           s5 = emit (Cond_init jb) s3
                       in if st2 \<noteq> 0
                          then (st2, emit (Mutex_destroy jb)
                                  (emit (Log_add_errno st2
                                     ''Couldn't initialize job's condition-variable'') s5))
                          else (st2, s5)))
            in if st' \<noteq> 0 then (NULL, emit (Free jb) s4) else (jb, s4))
         else (jb, s0))"

text \<open>
  \<open>job_free\<close>. \<open>None\<close> is the failure of the assertion that the job is not executing.
\<close>

definition job_free :: "addr \<Rightarrow> sys \<Rightarrow> sys option" where
  "job_free j s =
     (if state (jobs s j) = JOB_EXECUTING then None
      else Some (emit (Free j) (emit (Mutex_destroy j) (emit (Cond_destroy j) s))))"

subsection \<open>The list of jobs\<close>

definition jobList_add :: "addr \<Rightarrow> sys \<Rightarrow> sys" where
  "jobList_add j s =
     (let s1 = upd_job j (\<lambda>b. b\<lparr>prev := tail (jobList s)\<rparr>) s;
          s2 = (if head (jobList s1) = NULL then upd_jobList (\<lambda>l. l\<lparr>head := j\<rparr>) s1 else s1);
          s3 = (if tail (jobList s2) \<noteq> NULL
                then upd_job (tail (jobList s2)) (\<lambda>b. b\<lparr>next_job := j\<rparr>) s2 else s2);
          s4 = upd_jobList (\<lambda>l. l\<lparr>tail := j\<rparr>) s3
      in upd_jobList (\<lambda>l. l\<lparr>size_jl := size_jl l + 1\<rparr>) s4)"

definition jobList_remove :: "addr \<Rightarrow> sys \<Rightarrow> sys" where
  "jobList_remove j s =
     (let p = prev (jobs s j);
          n = next_job (jobs s j);
          s1 = (if p \<noteq> NULL then upd_job p (\<lambda>b. b\<lparr>next_job := n\<rparr>) s
                else upd_jobList (\<lambda>l. l\<lparr>head := n\<rparr>) s);
          s2 = (if n \<noteq> NULL then upd_job n (\<lambda>b. b\<lparr>prev := p\<rparr>) s1
                else upd_jobList (\<lambda>l. l\<lparr>tail := p\<rparr>) s1)
      in upd_jobList (\<lambda>l. l\<lparr>size_jl := size_jl l - 1\<rparr>) s2)"

definition jobList_size :: "sys \<Rightarrow> 64 word" where
  "jobList_size s = size_jl (jobList s)"

text \<open>
  The loop of \<open>jobList_cancelAll\<close>, with the loop variable \<open>job\<close> and the local \<open>status\<close>
  as arguments. \<open>None\<close> is a loop that does not end.
\<close>

partial_function (option) cancelAll_loop :: "env \<Rightarrow> addr \<Rightarrow> int \<Rightarrow> sys \<Rightarrow> (int \<times> sys) option" where
  "cancelAll_loop E jb st s =
     (if jb = NULL then Some (st, s)
      else
        (let nxt = next_job (jobs s jb);
             r = future_cancel E (future (jobs s jb)) s
         in if fst r \<noteq> 0
            then cancelAll_loop E nxt (if st = 0 then fst r else st)
                   (emit (Log_add ''Couldn't cancel job'') (snd r))
            else cancelAll_loop E nxt st (snd r)))"

definition jobList_cancelAll :: "env \<Rightarrow> sys \<Rightarrow> (int \<times> sys) option" where
  "jobList_cancelAll E s = cancelAll_loop E (head (jobList s)) 0 s"

subsection \<open>The executor\<close>

definition executor_remove :: "addr \<Rightarrow> sys \<Rightarrow> sys" where
  "executor_remove j s = emit Executor_unlock (jobList_remove j (emit Executor_lock s))"

definition executor_size :: "sys \<Rightarrow> 64 word \<times> sys" where
  "executor_size s =
     (let s1 = emit Executor_lock s
      in (jobList_size s1, emit Executor_unlock s1))"

definition executor_shutdown :: "env \<Rightarrow> bool \<Rightarrow> sys \<Rightarrow> (int \<times> sys) option" where
  "executor_shutdown E now s =
     (let s1 = emit Executor_lock s
      in if isShutdown s1 then Some (0, emit Executor_unlock s1)
         else
           (let s2 = s1\<lparr>isShutdown := True\<rparr>
            in if now
               then (case jobList_cancelAll E s2 of
                       None \<Rightarrow> None
                     | Some (st, s3) \<Rightarrow> Some (st, emit Executor_unlock s3))
               else Some (0, emit Executor_unlock s2)))"

text \<open>
  \<open>executor_submitJob\<close>. A created thread starts \<open>executor_run\<close> on the job, which
  enters \<open>job_run\<close>: the job's worker is set to the entry of \<open>job_run\<close>.
\<close>

definition executor_submitJob :: "env \<Rightarrow> addr \<Rightarrow> sys \<Rightarrow> int \<times> sys" where
  "executor_submitJob E j s =
     (let s1 = emit Executor_lock s;
          (st, s2) =
            (if isShutdown s1
             then (EPERM, emit (Log_add ''Executor is shut down'') s1)
             else
               (let s3 = jobList_add j s1;
                    (st1, thr) = pthread_create E (trace s3) j;
                    s4 = emit (Pthread_create j st1) s3
                in if st1 \<noteq> 0
                   then (st1, jobList_remove j
                                (emit (Log_add_errno st1 ''Couldn't create job's thread'') s4))
                   else (st1, emit (Pthread_detach thr)
                                (s4\<lparr>workers := (workers s4)
                                      (j := \<lparr>tid = thr, pc = At_entry,
                                             run_status = 0, run_result = NULL\<rparr>)\<rparr>))))
      in (st, emit Executor_unlock s2))"

text \<open>
  \<open>executor_submit\<close>. The result is the returned future (or the null pointer) and the
  new store; \<open>None\<close> is a failed assertion of \<open>job_free\<close>.
\<close>

definition executor_submit ::
    "env \<Rightarrow> addr \<Rightarrow> nat \<Rightarrow> nat option \<Rightarrow> sys \<Rightarrow> (addr \<times> sys) option" where
  "executor_submit E ob rn hl s =
     (let fut = future_new E (trace s);
          s0 = emit (Future_new fut) s
      in if fut = NULL then Some (fut, emit (Log_add ''Couldn't create new future'') s0)
         else
           (let (jb, s1) = job_new E fut ob rn hl s0;
                r = (if jb = NULL
                     then Some (- 1, emit (Log_add ''Couldn't create new job'') s1)
                     else
                       (let (st, s2) = executor_submitJob E jb s1
                        in if st \<noteq> 0
                           then (case job_free jb s2 of None \<Rightarrow> None | Some s3 \<Rightarrow> Some (st, s3))
                           else Some (st, s2)))
            in case r of
                 None \<Rightarrow> None
               | Some (st, s4) \<Rightarrow>
                   if st \<noteq> 0 then Some (NULL, future_free fut s4) else Some (fut, s4)))"

subsection \<open>The worker thread\<close>

text \<open>
  \<open>job_run\<close>, one atomic step at a time. The steps are the regions of the function
  between which other threads can run: the locked region of the test of \<open>canceled\<close>,
  the call of the run function, the locked region that sets \<open>JOB_COMPLETED\<close>,
  \<open>executor_remove\<close>, and \<open>future_setResult\<close>.
\<close>

definition job_run_step :: "env \<Rightarrow> addr \<Rightarrow> sys \<Rightarrow> sys" where
  "job_run_step E j s =
     (case pc (workers s j) of
        At_entry \<Rightarrow>
          (let s0 = upd_worker j (\<lambda>w. w\<lparr>run_result := NULL, run_status := 0\<rparr>) s;
               s1 = emit (Job_lock j) s0
           in if \<not> canceled (jobs s1 j)
              then
                (let s2 = upd_job j (\<lambda>b. b\<lparr>thread := tid (workers s1 j)\<rparr>) s1;
                     s3 = upd_job j (\<lambda>b. b\<lparr>state := JOB_EXECUTING\<rparr>) s2
                 in upd_worker j (\<lambda>w. w\<lparr>pc := At_call\<rparr>) (emit (Job_unlock j) s3))
              else upd_worker j (\<lambda>w. w\<lparr>pc := At_remove\<rparr>) (emit (Job_unlock j) s1))
      | At_call \<Rightarrow>
          (let r = user_run E (trace s) (run (jobs s j)) (obj (jobs s j));
               s1 = emit (Call_run j (run (jobs s j)) (obj (jobs s j))) s
           in upd_worker j (\<lambda>w. w\<lparr>run_status := fst r, run_result := snd r, pc := At_completion\<rparr>) s1)
      | At_completion \<Rightarrow>
          (let s1 = emit (Job_lock j) s;
               s2 = upd_job j (\<lambda>b. b\<lparr>state := JOB_COMPLETED\<rparr>) s1
           in upd_worker j (\<lambda>w. w\<lparr>pc := At_remove\<rparr>) (emit (Job_unlock j) s2))
      | At_remove \<Rightarrow> upd_worker j (\<lambda>w. w\<lparr>pc := At_publish\<rparr>) (executor_remove j s)
      | At_publish \<Rightarrow>
          upd_worker j (\<lambda>w. w\<lparr>pc := Returned\<rparr>)
            (future_setResult (future (jobs s j)) (run_status (workers s j))
               (run_result (workers s j)) (canceled (jobs s j)) s)
      | Returned \<Rightarrow> s)"

text \<open>\<open>job_run\<close> when no other thread runs in between: its five steps in a row.\<close>

definition job_run :: "env \<Rightarrow> addr \<Rightarrow> sys \<Rightarrow> sys" where
  "job_run E j s =
     job_run_step E j (job_run_step E j (job_run_step E j (job_run_step E j
       (job_run_step E j (upd_worker j (\<lambda>w. w\<lparr>pc := At_entry\<rparr>) s)))))"

text \<open>
  Threads interleave: an operation is one step of the worker of a job, or a call of
  \<open>job_cancel\<close> on a job by any other thread.
\<close>

datatype op = Worker addr | Cancel addr

definition step :: "env \<Rightarrow> op \<Rightarrow> sys \<Rightarrow> sys" where
  "step E a s = (case a of Worker j \<Rightarrow> job_run_step E j s | Cancel j \<Rightarrow> snd (job_cancel E j s))"

fun run_ops :: "env \<Rightarrow> op list \<Rightarrow> sys \<Rightarrow> sys" where
  "run_ops E [] s = s"
| "run_ops E (a # as) s = run_ops E as (step E a s)"


subsection \<open>Concrete stores and environments\<close>

text \<open>
  \<open>jobList_new\<close> is the list that the function of that name initialises; \<open>sys0\<close> is a
  store with a new executor and no job. In the environment \<open>env_ok\<close> every call succeeds
  and allocation returns an address that grows with the trace; in \<open>env_nothread\<close>
  thread creation fails with status 11, and in \<open>env_halt_fails\<close> signalling fails with
  status 22.
\<close>

definition jobList_new :: jobList where
  "jobList_new = \<lparr>head = NULL, tail = NULL, size_jl = 0\<rparr>"

definition job0 :: job where
  "job0 = \<lparr>thread = 0, obj = NULL, run = 0, halt = Job_defaultHaltFunc, future = NULL,
           prev = NULL, next_job = NULL, state = JOB_INITIALIZED, canceled = False\<rparr>"

definition sys0 :: sys where
  "sys0 = \<lparr>jobs = (\<lambda>a. job0), jobList = jobList_new, isShutdown = False,
           futures = (\<lambda>a. \<lparr>fjob = NULL, fresult = None\<rparr>),
           workers = (\<lambda>a. \<lparr>tid = 0, pc = Returned, run_status = 0, run_result = NULL\<rparr>),
           trace = []\<rparr>"

definition env_ok :: env where
  "env_ok = \<lparr>pthread_kill = (\<lambda>t thr sg. 0),
             pthread_create = (\<lambda>t j. (0, length t)),
             user_run = (\<lambda>t f ob. (int f, ob)),
             user_halt = (\<lambda>t f ob thr. int f),
             log_malloc = (\<lambda>t. 16 * word_of_nat (length t) + 16),
             mutex_init = (\<lambda>t. 0),
             pthread_cond_init = (\<lambda>t. 0),
             future_new = (\<lambda>t. 16 * word_of_nat (length t) + 8)\<rparr>"

definition env_nothread :: env where
  "env_nothread = env_ok\<lparr>pthread_create := (\<lambda>t j. (11, 0))\<rparr>"

definition env_halt_fails :: env where
  "env_halt_fails = env_ok\<lparr>pthread_kill := (\<lambda>t thr sg. 22)\<rparr>"

text \<open>
  The stores after one submission to the new executor (the job is at address 32, its
  future at 8), after the first step of that job's worker, and after its whole
  \<open>job_run\<close>.
\<close>

definition sys_submitted :: sys where
  "sys_submitted =
     (case executor_submit env_ok 5 7 None sys0 of Some (f, s) \<Rightarrow> s | None \<Rightarrow> sys0)"

definition sys_executing :: sys where
  "sys_executing = job_run_step env_ok 32 sys_submitted"

definition sys_completed :: sys where
  "sys_completed = job_run env_ok 32 sys_submitted"

text \<open>
  The store after the submission of a job with a halt function of the caller (number 9,
  for which \<open>env_ok\<close> returns the status 9) and the first step of its worker; and an
  environment in which the halt functions of the caller return 0.
\<close>

definition sys_user_executing :: sys where
  "sys_user_executing =
     job_run_step env_ok 32
       (case executor_submit env_ok 5 7 (Some 9) sys0 of Some (f, s) \<Rightarrow> s | None \<Rightarrow> sys0)"

definition env_halt_ok :: env where
  "env_halt_ok = env_ok\<lparr>user_halt := (\<lambda>t f ob thr. 0)\<rparr>"

subsection \<open>The well-formed list\<close>

text \<open>
  \<open>dseg h pr p xs q\<close>: in the heap \<open>h\<close>, following \<open>next\<close> from the pointer \<open>p\<close> visits the
  nodes \<open>xs\<close> in order and arrives at \<open>q\<close>; none of them is null, the \<open>prev\<close> of the first
  is \<open>pr\<close> and the \<open>prev\<close> of every other one is the node before it. \<open>jobList_inv s xs\<close>:
  the list of the executor holds the nodes \<open>xs\<close>, from \<open>head\<close> to the null pointer, the
  \<open>prev\<close> of the head and the \<open>next\<close> of the tail are null, \<open>tail\<close> is the last node (null
  for the empty list) and \<open>size\<close> is the number of nodes.
\<close>

fun dseg :: "(addr \<Rightarrow> job) \<Rightarrow> addr \<Rightarrow> addr \<Rightarrow> addr list \<Rightarrow> addr \<Rightarrow> bool" where
  "dseg h pr p [] q = (p = q)"
| "dseg h pr p (x # xs) q =
     (p = x \<and> x \<noteq> NULL \<and> prev (h x) = pr \<and> dseg h x (next_job (h x)) xs q)"

definition jobList_inv :: "sys \<Rightarrow> addr list \<Rightarrow> bool" where
  "jobList_inv s xs =
     (dseg (jobs s) NULL (head (jobList s)) xs NULL \<and>
      tail (jobList s) = last (NULL # xs) \<and>
      unat (size_jl (jobList s)) = length xs)"

subsection \<open>Sequences of list operations\<close>

text \<open>
  A sequence of calls of \<open>jobList_add\<close> and \<open>jobList_remove\<close>. \<open>members_step\<close> is the effect
  of a call on the sequence of the members of the list. \<open>list_op_ok\<close> is the condition
  under which the call is made: a node that is added is a new node (not null, not a
  member, with null \<open>prev\<close> and \<open>next\<close>, as \<open>job_new\<close> leaves it), a node that is removed
  is a member.
\<close>

datatype list_op = Add addr | Remove addr

fun list_step :: "list_op \<Rightarrow> sys \<Rightarrow> sys" where
  "list_step (Add j) s = jobList_add j s"
| "list_step (Remove j) s = jobList_remove j s"

fun members_step :: "list_op \<Rightarrow> addr list \<Rightarrow> addr list" where
  "members_step (Add j) xs = xs @ [j]"
| "members_step (Remove j) xs = remove1 j xs"

fun list_op_ok :: "sys \<Rightarrow> addr list \<Rightarrow> list_op \<Rightarrow> bool" where
  "list_op_ok s xs (Add j) =
     (j \<noteq> NULL \<and> j \<notin> set xs \<and> prev (jobs s j) = NULL \<and> next_job (jobs s j) = NULL)"
| "list_op_ok s xs (Remove j) = (j \<in> set xs)"

fun list_ops_ok :: "sys \<Rightarrow> addr list \<Rightarrow> list_op list \<Rightarrow> bool" where
  "list_ops_ok s xs [] = True"
| "list_ops_ok s xs (a # as) =
     (list_op_ok s xs a \<and> list_ops_ok (list_step a s) (members_step a xs) as)"

fun run_list_ops :: "list_op list \<Rightarrow> sys \<Rightarrow> sys" where
  "run_list_ops [] s = s"
| "run_list_ops (a # as) s = run_list_ops as (list_step a s)"

fun members :: "list_op list \<Rightarrow> addr list \<Rightarrow> addr list" where
  "members [] xs = xs"
| "members (a # as) xs = members as (members_step a xs)"

text \<open>
  What \<open>jobList_cancelAll\<close> is meant to do, written over the sequence of the nodes of the
  list: \<open>future_cancel\<close> is called on the future of every node in turn, whatever the
  earlier calls returned, and a failure is logged; the result is the first status that
  is not 0, or 0. \<open>future_cancels\<close> reads the calls of \<open>future_cancel\<close> off a trace.
\<close>

fun cancel_each :: "env \<Rightarrow> addr list \<Rightarrow> sys \<Rightarrow> int list \<times> sys" where
  "cancel_each E [] s = ([], s)"
| "cancel_each E (x # xs) s =
     (let r = future_cancel E (future (jobs s x)) s;
          s1 = (if fst r \<noteq> 0 then emit (Log_add ''Couldn't cancel job'') (snd r) else snd r);
          rs = cancel_each E xs s1
      in (fst r # fst rs, snd rs))"

definition first_nonzero :: "int list \<Rightarrow> int" where
  "first_nonzero sts = (case filter (\<lambda>st. st \<noteq> 0) sts of [] \<Rightarrow> 0 | st # rest \<Rightarrow> st)"

fun future_cancels :: "event list \<Rightarrow> addr list" where
  "future_cancels [] = []"
| "future_cancels (Future_cancel f # es) = f # future_cancels es"
| "future_cancels (e # es) = future_cancels es"

definition list_ops_example :: "list_op list" where
  "list_ops_example = [Add 16, Add 32, Remove 16, Add 48]"

text \<open>\<open>pthread_creates\<close> reads the calls of \<open>pthread_create\<close> off a trace.\<close>

fun pthread_creates :: "event list \<Rightarrow> (addr \<times> int) list" where
  "pthread_creates [] = []"
| "pthread_creates (Pthread_create j st # es) = (j, st) # pthread_creates es"
| "pthread_creates (e # es) = pthread_creates es"

text \<open>
  The store after the executor with one submitted job is shut down without cancelling,
  and the store after a submission to the new executor for which thread creation fails.
\<close>

definition sys_shutdown :: sys where
  "sys_shutdown =
     (case executor_shutdown env_ok False sys_submitted of Some (st, s) \<Rightarrow> s | None \<Rightarrow> sys0)"

definition sys_nothread :: sys where
  "sys_nothread =
     (case executor_submit env_nothread 5 7 None sys_submitted of
        Some (f, s) \<Rightarrow> s | None \<Rightarrow> sys0)"

subsection \<open>The life of a job\<close>

text \<open>
  \<open>forward a b\<close>: the state \<open>b\<close> is the state \<open>a\<close> or the next one. \<open>coherent s j\<close> relates the
  place of the worker of the job \<open>j\<close> in \<open>job_run\<close> to the state of the job: initialised at
  the entry, executing from the call of the run function to the locked region that
  completes the job. \<open>sys_canceled\<close> is the store after the submitted job of
  \<open>sys_submitted\<close> is cancelled before its worker has run.
\<close>

definition forward :: "JobState \<Rightarrow> JobState \<Rightarrow> bool" where
  "forward a b =
     (b = a \<or> (a = JOB_INITIALIZED \<and> b = JOB_EXECUTING) \<or> (a = JOB_EXECUTING \<and> b = JOB_COMPLETED))"

definition coherent :: "sys \<Rightarrow> addr \<Rightarrow> bool" where
  "coherent s j =
     (case pc (workers s j) of
        At_entry \<Rightarrow> state (jobs s j) = JOB_INITIALIZED
      | At_call \<Rightarrow> state (jobs s j) = JOB_EXECUTING
      | At_completion \<Rightarrow> state (jobs s j) = JOB_EXECUTING
      | At_remove \<Rightarrow> True
      | At_publish \<Rightarrow> True
      | Returned \<Rightarrow> True)"

definition sys_canceled :: sys where
  "sys_canceled = snd (job_cancel env_ok 32 sys_submitted)"

subsection \<open>The jobs of an executor and their workers\<close>

text \<open>
  \<open>active l\<close>: a worker at the place \<open>l\<close> of \<open>job_run\<close> has not yet called
  \<open>executor_remove\<close>. \<open>sys_inv J s xs\<close>, for the submitted jobs \<open>J\<close>: the list is well formed
  with the members \<open>xs\<close>; the members are the jobs of \<open>J\<close> whose worker is active; the future
  of a job of \<open>J\<close> holds a result only when the worker of the job has returned from
  \<open>job_run\<close>; and the jobs of \<open>J\<close> have different futures. \<open>op_ok J a\<close>: the operation \<open>a\<close>
  is a step of the worker of a job of \<open>J\<close>, or a call of \<open>job_cancel\<close>.
\<close>

definition active :: "label \<Rightarrow> bool" where
  "active l = (l = At_entry \<or> l = At_call \<or> l = At_completion \<or> l = At_remove)"

definition sys_inv :: "addr list \<Rightarrow> sys \<Rightarrow> addr list \<Rightarrow> bool" where
  "sys_inv J s xs =
     (jobList_inv s xs \<and>
      set xs = set (filter (\<lambda>j. active (pc (workers s j))) J) \<and>
      list_all (\<lambda>j. fresult (futures s (future (jobs s j))) = None \<or>
                     pc (workers s j) = Returned) J \<and>
      distinct (map (\<lambda>j. future (jobs s j)) J))"

definition op_ok :: "addr list \<Rightarrow> op \<Rightarrow> bool" where
  "op_ok J a = (case a of Worker j \<Rightarrow> j \<in> set J | Cancel j \<Rightarrow> True)"

text \<open>
  \<open>sys_two\<close> is the store after a second submission (the job at address 176, its future
  at 152); in \<open>ops_example\<close> the worker of the first job runs to the end of \<open>job_run\<close> while
  the second job starts and is cancelled.
\<close>

definition sys_two :: sys where
  "sys_two =
     (case executor_submit env_ok 6 8 None sys_submitted of Some (f, s) \<Rightarrow> s | None \<Rightarrow> sys0)"

definition ops_example :: "op list" where
  "ops_example =
     [Worker 32, Worker 176, Cancel 176, Worker 32, Worker 32, Worker 32, Worker 32]"

section \<open>Properties\<close>

subsection \<open>Frame lemmas\<close>

lemma emit_simps [simp]:
  "jobs (emit e s) = jobs s"
  "jobList (emit e s) = jobList s"
  "isShutdown (emit e s) = isShutdown s"
  "futures (emit e s) = futures s"
  "workers (emit e s) = workers s"
  "trace (emit e s) = trace s @ [e]"
  by (simp_all add: emit_def)

lemma upd_job_simps [simp]:
  "jobs (upd_job j f s) = (jobs s)(j := f (jobs s j))"
  "jobList (upd_job j f s) = jobList s"
  "isShutdown (upd_job j f s) = isShutdown s"
  "futures (upd_job j f s) = futures s"
  "workers (upd_job j f s) = workers s"
  "trace (upd_job j f s) = trace s"
  by (simp_all add: upd_job_def)

lemma upd_worker_simps [simp]:
  "jobs (upd_worker j f s) = jobs s"
  "jobList (upd_worker j f s) = jobList s"
  "isShutdown (upd_worker j f s) = isShutdown s"
  "futures (upd_worker j f s) = futures s"
  "workers (upd_worker j f s) = (workers s)(j := f (workers s j))"
  "trace (upd_worker j f s) = trace s"
  by (simp_all add: upd_worker_def)

lemma upd_jobList_simps [simp]:
  "jobs (upd_jobList f s) = jobs s"
  "jobList (upd_jobList f s) = f (jobList s)"
  "isShutdown (upd_jobList f s) = isShutdown s"
  "futures (upd_jobList f s) = futures s"
  "workers (upd_jobList f s) = workers s"
  "trace (upd_jobList f s) = trace s"
  by (simp_all add: upd_jobList_def)

lemma sys_executing_state: "state (jobs sys_executing 32) = JOB_EXECUTING"
  by code_simp

lemma sys_completed_state: "state (jobs sys_completed 32) = JOB_COMPLETED"
  by code_simp

subsection \<open>Cancelling a job\<close>

text \<open>
  C6. For a job whose state is \<open>JOB_COMPLETED\<close>, \<open>job_cancel\<close> returns 0 and changes
  nothing: the heap of jobs (state and canceled flag of every job), the futures (the
  recorded results), the list and the shutdown flag are as before; the trace grows by
  the locking and the unlocking of the job.
\<close>

theorem job_cancel_completed:
  "state (jobs s j) = JOB_COMPLETED \<Longrightarrow>
   job_cancel E j s = (0, s\<lparr>trace := trace s @ [Job_lock j, Job_unlock j]\<rparr>)"
  by (simp add: job_cancel_def emit_def)

theorem job_cancel_completed_witness:
  "state (jobs sys_completed 32) = JOB_COMPLETED \<and>
   job_cancel env_ok 32 sys_completed =
     (0, sys_completed\<lparr>trace := trace sys_completed @ [Job_lock 32, Job_unlock 32]\<rparr>)"
  using job_cancel_completed [OF sys_completed_state, of env_ok] sys_completed_state
  by simp

text \<open>
  C8. \<open>job_defaultHaltFunc\<close> sends \<open>SIGTERM\<close> to the given thread with \<open>pthread_kill\<close>.
  When the status of that call is 0 or \<open>ESRCH\<close> the function returns 0 and logs nothing;
  for any other status it logs the error and returns that status.
\<close>

theorem job_defaultHaltFunc_status:
  "job_defaultHaltFunc E ob thr s =
     (let st = pthread_kill E (trace s) thr SIGTERM;
          s1 = s\<lparr>trace := trace s @ [Pthread_kill thr SIGTERM]\<rparr>
      in if st = 0 \<or> st = ESRCH then (0, s1)
         else (st, s1\<lparr>trace := trace s1 @ [Log_add_errno st ''Couldn't signal job's thread'']\<rparr>))"
  by (simp add: job_defaultHaltFunc_def Let_def emit_def)

theorem job_defaultHaltFunc_status_witness:
  "job_defaultHaltFunc (env_ok\<lparr>pthread_kill := (\<lambda>t thr sg. ESRCH)\<rparr>) 5 6 sys0 =
     (0, sys0\<lparr>trace := [Pthread_kill 6 SIGTERM]\<rparr>) \<and>
   job_defaultHaltFunc env_halt_fails 5 6 sys0 =
     (22, sys0\<lparr>trace := [Pthread_kill 6 SIGTERM,
                          Log_add_errno 22 ''Couldn't signal job's thread'']\<rparr>)"
  using job_defaultHaltFunc_status [of "env_ok\<lparr>pthread_kill := (\<lambda>t thr sg. ESRCH)\<rparr>" 5 6 sys0]
    job_defaultHaltFunc_status [of env_halt_fails 5 6 sys0]
  by (simp add: env_halt_fails_def env_ok_def sys0_def ESRCH_def)

lemma job_defaultHaltFunc_frame:
  "\<exists>evs. snd (job_defaultHaltFunc E ob thr s) = s\<lparr>trace := trace s @ evs\<rparr>"
proof -
  let ?st = "pthread_kill E (trace s) thr SIGTERM"
  let ?k = "Pthread_kill thr SIGTERM"
  have "snd (job_defaultHaltFunc E ob thr s) = s\<lparr>trace := trace s @ [?k]\<rparr> \<or>
        snd (job_defaultHaltFunc E ob thr s) =
          s\<lparr>trace := trace s @ [?k, Log_add_errno ?st ''Couldn't signal job's thread'']\<rparr>"
    by (simp add: job_defaultHaltFunc_def Let_def emit_def)
  then show ?thesis by blast
qed

lemma call_halt_frame:
  "\<exists>evs. snd (call_halt E h ob thr s) = s\<lparr>trace := trace s @ Call_halt h ob thr # evs\<rparr>"
proof (cases h)
  case Job_defaultHaltFunc
  obtain evs where "snd (job_defaultHaltFunc E ob thr (emit (Call_halt h ob thr) s)) =
      (emit (Call_halt h ob thr) s)\<lparr>trace := trace (emit (Call_halt h ob thr) s) @ evs\<rparr>"
    using job_defaultHaltFunc_frame by blast
  then have "snd (call_halt E h ob thr s) = s\<lparr>trace := trace s @ Call_halt h ob thr # evs\<rparr>"
    using Job_defaultHaltFunc by (simp add: call_halt_def Let_def emit_def)
  then show ?thesis by blast
next
  case (User_halt f)
  then have "snd (call_halt E h ob thr s) = s\<lparr>trace := trace s @ Call_halt h ob thr # []\<rparr>"
    by (simp add: call_halt_def Let_def emit_def)
  then show ?thesis by blast
qed

lemma sys_executing_halt: "halt (jobs sys_executing 32) = Job_defaultHaltFunc"
  by code_simp

lemma sys_user_executing_job:
  "state (jobs sys_user_executing 32) = JOB_EXECUTING"
  "halt (jobs sys_user_executing 32) = User_halt 9"
  "obj (jobs sys_user_executing 32) = 5"
  "thread (jobs sys_user_executing 32) = 6"
  by code_simp+

text \<open>
  C7. For a job whose state is \<open>JOB_EXECUTING\<close>, \<open>job_cancel\<close> sets \<open>canceled\<close>, unlocks the
  job, and only then calls the job's halt function with the job's \<open>obj\<close> and \<open>thread\<close>:
  the function of the caller that the job holds, or \<open>job_defaultHaltFunc\<close>. It returns
  the status of that call, and logs it first when it is not 0.
\<close>

theorem job_cancel_executing:
  assumes "state (jobs s j) = JOB_EXECUTING"
  shows "job_cancel E j s =
     (let h = halt (jobs s j);
          ob = obj (jobs s j);
          thr = thread (jobs s j);
          s3 = s\<lparr>jobs := (jobs s)(j := (jobs s j)\<lparr>canceled := True\<rparr>),
                 trace := trace s @ [Job_lock j, Job_unlock j, Call_halt h ob thr]\<rparr>;
          r = (case h of
                 Job_defaultHaltFunc \<Rightarrow> job_defaultHaltFunc E ob thr s3
               | User_halt f \<Rightarrow> (user_halt E (trace s3) f ob thr, s3))
      in (fst r,
          if fst r \<noteq> 0
          then (snd r)\<lparr>trace := trace (snd r) @
                          [Log_error_1 ''Job's halt function returned %d'' (fst r)]\<rparr>
          else snd r)) \<and>
    (\<exists>evs. trace (snd (job_cancel E j s)) =
        trace s @ [Job_lock j, Job_unlock j,
                   Call_halt (halt (jobs s j)) (obj (jobs s j)) (thread (jobs s j))] @ evs) \<and>
    canceled (jobs (snd (job_cancel E j s)) j)"
proof -
  define s2 where "s2 = s\<lparr>jobs := (jobs s)(j := (jobs s j)\<lparr>canceled := True\<rparr>),
                 trace := trace s @ [Job_lock j, Job_unlock j]\<rparr>"
  define s3 where "s3 = s\<lparr>jobs := (jobs s)(j := (jobs s j)\<lparr>canceled := True\<rparr>),
                 trace := trace s @ [Job_lock j, Job_unlock j,
                   Call_halt (halt (jobs s j)) (obj (jobs s j)) (thread (jobs s j))]\<rparr>"
  define r where "r = call_halt E (halt (jobs s j)) (obj (jobs s j)) (thread (jobs s j)) s2"
  have s2: "emit (Job_unlock j) (upd_job j (\<lambda>b. b\<lparr>canceled := True\<rparr>) (emit (Job_lock j) s)) = s2"
    by (simp add: s2_def emit_def upd_job_def)
  have s23: "emit (Call_halt (halt (jobs s j)) (obj (jobs s j)) (thread (jobs s j))) s2 = s3"
    by (simp add: s2_def s3_def emit_def)
  have r: "r = (case halt (jobs s j) of
                 Job_defaultHaltFunc \<Rightarrow>
                   job_defaultHaltFunc E (obj (jobs s j)) (thread (jobs s j)) s3
               | User_halt f \<Rightarrow>
                   (user_halt E (trace s3) f (obj (jobs s j)) (thread (jobs s j)), s3))"
    unfolding r_def call_halt_def Let_def s23 ..
  have eq: "job_cancel E j s =
     (fst r, if fst r \<noteq> 0
          then (snd r)\<lparr>trace := trace (snd r) @
                          [Log_error_1 ''Job's halt function returned %d'' (fst r)]\<rparr>
          else snd r)"
  proof -
    have f: "halt (jobs s2 j) = halt (jobs s j)" "obj (jobs s2 j) = obj (jobs s j)"
      "thread (jobs s2 j) = thread (jobs s j)"
      by (simp_all add: s2_def)
    have "job_cancel E j s =
      (let (status, s4) = call_halt E (halt (jobs s2 j)) (obj (jobs s2 j)) (thread (jobs s2 j)) s2
       in if status \<noteq> 0
          then (status, emit (Log_error_1 ''Job's halt function returned %d'' status) s4)
          else (status, s4))"
      using assms unfolding job_cancel_def Let_def s2 by simp
    then show ?thesis
      unfolding f r_def [symmetric] by (simp add: case_prod_beta emit_def)
  qed
  obtain evs where evs: "snd r = s2\<lparr>trace := trace s2 @
      Call_halt (halt (jobs s j)) (obj (jobs s j)) (thread (jobs s j)) # evs\<rparr>"
    using call_halt_frame [of E "halt (jobs s j)" "obj (jobs s j)" "thread (jobs s j)" s2]
    unfolding r_def by blast
  have tr: "\<exists>evs. trace (snd (job_cancel E j s)) =
        trace s @ [Job_lock j, Job_unlock j,
                   Call_halt (halt (jobs s j)) (obj (jobs s j)) (thread (jobs s j))] @ evs"
    by (simp add: eq evs s2_def)
  have cn: "canceled (jobs (snd (job_cancel E j s)) j)"
    by (simp add: eq evs s2_def)
  have "job_cancel E j s =
     (let h = halt (jobs s j);
          ob = obj (jobs s j);
          thr = thread (jobs s j);
          s3 = s\<lparr>jobs := (jobs s)(j := (jobs s j)\<lparr>canceled := True\<rparr>),
                 trace := trace s @ [Job_lock j, Job_unlock j, Call_halt h ob thr]\<rparr>;
          r = (case h of
                 Job_defaultHaltFunc \<Rightarrow> job_defaultHaltFunc E ob thr s3
               | User_halt f \<Rightarrow> (user_halt E (trace s3) f ob thr, s3))
      in (fst r,
          if fst r \<noteq> 0
          then (snd r)\<lparr>trace := trace (snd r) @
                          [Log_error_1 ''Job's halt function returned %d'' (fst r)]\<rparr>
          else snd r))"
    unfolding Let_def s3_def [symmetric] r [symmetric] by (rule eq)
  with tr cn show ?thesis
    by blast
qed

theorem job_cancel_executing_witness:
  "state (jobs sys_user_executing 32) = JOB_EXECUTING \<and>
   halt (jobs sys_user_executing 32) = User_halt 9 \<and>
   fst (job_cancel env_ok 32 sys_user_executing) = 9 \<and>
   trace (snd (job_cancel env_ok 32 sys_user_executing)) =
     trace sys_user_executing @
       [Job_lock 32, Job_unlock 32, Call_halt (User_halt 9) 5 6,
        Log_error_1 ''Job's halt function returned %d'' 9] \<and>
   canceled (jobs (snd (job_cancel env_ok 32 sys_user_executing)) 32) \<and>
   fst (job_cancel env_halt_ok 32 sys_user_executing) = 0 \<and>
   trace (snd (job_cancel env_halt_ok 32 sys_user_executing)) =
     trace sys_user_executing @ [Job_lock 32, Job_unlock 32, Call_halt (User_halt 9) 5 6] \<and>
   state (jobs sys_executing 32) = JOB_EXECUTING \<and>
   halt (jobs sys_executing 32) = Job_defaultHaltFunc \<and>
   fst (job_cancel env_halt_fails 32 sys_executing) = 22 \<and>
   canceled (jobs (snd (job_cancel env_halt_fails 32 sys_executing)) 32) \<and>
   fst (job_cancel env_ok 32 sys_executing) = 0"
proof -
  note u = job_cancel_executing [OF sys_user_executing_job(1), unfolded Let_def
      sys_user_executing_job halt_fn.case]
  note d = job_cancel_executing [OF sys_executing_state, unfolded Let_def
      sys_executing_halt halt_fn.case]
  have u9: "fst (job_cancel env_ok 32 sys_user_executing) = 9"
    "trace (snd (job_cancel env_ok 32 sys_user_executing)) =
     trace sys_user_executing @
       [Job_lock 32, Job_unlock 32, Call_halt (User_halt 9) 5 6,
        Log_error_1 ''Job's halt function returned %d'' 9]"
    "canceled (jobs (snd (job_cancel env_ok 32 sys_user_executing)) 32)"
    using u [of env_ok] by (simp_all add: env_ok_def)
  have u0: "fst (job_cancel env_halt_ok 32 sys_user_executing) = 0"
    "trace (snd (job_cancel env_halt_ok 32 sys_user_executing)) =
     trace sys_user_executing @ [Job_lock 32, Job_unlock 32, Call_halt (User_halt 9) 5 6]"
    using u [of env_halt_ok] by (simp_all add: env_halt_ok_def env_ok_def)
  have d22: "fst (job_cancel env_halt_fails 32 sys_executing) = 22"
    "canceled (jobs (snd (job_cancel env_halt_fails 32 sys_executing)) 32)"
    using d [of env_halt_fails]
    by (simp_all add: job_defaultHaltFunc_def Let_def env_halt_fails_def env_ok_def ESRCH_def)
  have d0: "fst (job_cancel env_ok 32 sys_executing) = 0"
    using d [of env_ok]
    by (simp add: job_defaultHaltFunc_def Let_def env_ok_def)
  show ?thesis
    using sys_user_executing_job(1,2) sys_executing_state sys_executing_halt u9 u0 d22 d0
    by blast
qed

subsection \<open>The list of jobs as a doubly-linked list\<close>

lemma dseg_null_notin: "dseg h pr p xs q \<Longrightarrow> NULL \<notin> set xs"
  by (induction xs arbitrary: pr p) auto

lemma dseg_links_cong:
  "(\<And>x. x \<in> set xs \<Longrightarrow> prev (h' x) = prev (h x) \<and> next_job (h' x) = next_job (h x)) \<Longrightarrow>
   dseg h' pr p xs q = dseg h pr p xs q"
  by (induction xs arbitrary: pr p) auto

lemma dseg_frame: "a \<notin> set xs \<Longrightarrow> dseg (h(a := v)) pr p xs q = dseg h pr p xs q"
  by (rule dseg_links_cong) auto

lemma dseg_append:
  "dseg h pr p (as @ bs) q = (\<exists>m. dseg h pr p as m \<and> dseg h (last (pr # as)) m bs q)"
  by (induction as arbitrary: pr p) auto

lemma dseg_unique: "dseg h pr p xs NULL \<Longrightarrow> dseg h pr' p ys NULL \<Longrightarrow> xs = ys"
proof (induction xs arbitrary: pr pr' p ys)
  case Nil
  then show ?case by (cases ys) auto
next
  case (Cons x xs)
  then show ?case by (cases ys) auto
qed

lemma dseg_distinct: "dseg h pr p xs NULL \<Longrightarrow> distinct xs"
proof (induction xs arbitrary: pr p)
  case Nil
  then show ?case by simp
next
  case (Cons x xs)
  then have tl: "dseg h x (next_job (h x)) xs NULL"
    by simp
  have "x \<notin> set xs"
  proof
    assume "x \<in> set xs"
    then obtain as bs where xs: "xs = as @ x # bs"
      by (auto dest: split_list)
    from tl obtain m where "dseg h (last (x # as)) m (x # bs) NULL"
      unfolding xs dseg_append by blast
    then have "dseg h x (next_job (h x)) bs NULL"
      by simp
    with tl have "xs = bs"
      by (rule dseg_unique)
    with xs show False by simp
  qed
  with Cons.IH [OF tl] show ?case by simp
qed

lemma addr_list_length:
  fixes xs :: "addr list"
  assumes "distinct xs" "NULL \<notin> set xs"
  shows "length xs < 2 ^ 64"
proof -
  have "set xs \<subseteq> UNIV - {NULL}"
    using assms by auto
  then have "card (set xs) \<le> card (UNIV - {NULL :: addr})"
    by (intro card_mono) auto
  also have "\<dots> = 2 ^ 64 - 1"
    by (simp add: card_Diff_singleton card_word)
  finally show ?thesis
    using assms by (simp add: distinct_card)
qed

lemma dseg_last: "dseg h pr p xs NULL \<Longrightarrow> xs \<noteq> [] \<Longrightarrow> next_job (h (last xs)) = NULL"
  by (induction xs arbitrary: pr p) auto

lemma dseg_snoc:
  "dseg h pr p xs NULL \<Longrightarrow> xs \<noteq> [] \<Longrightarrow> j \<noteq> NULL \<Longrightarrow> j \<notin> set xs \<Longrightarrow>
   next_job (h j) = NULL \<Longrightarrow>
   dseg (h(j := (h j)\<lparr>prev := last xs\<rparr>, last xs := (h (last xs))\<lparr>next_job := j\<rparr>)) pr p
     (xs @ [j]) NULL"
proof (induction xs arbitrary: pr p)
  case Nil
  then show ?case by simp
next
  case (Cons x xs)
  show ?case
  proof (cases "xs = []")
    case True
    with Cons.prems show ?thesis by auto
  next
    case False
    from Cons.prems(1) have d: "distinct (x # xs)"
      by (rule dseg_distinct)
    with False have "last xs \<noteq> x"
      by (metis distinct.simps(2) last_in_set)
    with Cons.prems Cons.IH [of x "next_job (h x)"] False d show ?thesis
      by auto
  qed
qed

lemma jobList_add_inv:
  assumes "jobList_inv s xs" "j \<noteq> NULL" "j \<notin> set xs" "next_job (jobs s j) = NULL"
  shows "jobList_inv (jobList_add j s) (xs @ [j])"
proof -
  have seg: "dseg (jobs s) NULL (head (jobList s)) xs NULL"
    and tl: "tail (jobList s) = last (NULL # xs)"
    and sz: "unat (size_jl (jobList s)) = length xs"
    using assms(1) by (simp_all add: jobList_inv_def)
  have "distinct (xs @ [j])" "NULL \<notin> set (xs @ [j])"
    using seg assms by (auto dest: dseg_distinct dseg_null_notin)
  then have "length (xs @ [j]) < 2 ^ 64"
    by (rule addr_list_length)
  then have sz': "unat (size_jl (jobList s) + 1) = length (xs @ [j])"
    using sz by (simp add: unat_word_ariths)
  show ?thesis
  proof (cases "xs = []")
    case True
    with seg tl assms sz' show ?thesis
      by (simp add: jobList_inv_def jobList_add_def Let_def)
  next
    case False
    then have hd: "head (jobList s) \<noteq> NULL"
      using seg by (cases xs) auto
    have "last xs \<in> set xs"
      using False by simp
    then have lst: "last xs \<noteq> NULL" "last xs \<noteq> j"
      using assms(3) dseg_null_notin [OF seg] by metis+
    have "jobs (jobList_add j s) =
        (jobs s)(j := (jobs s j)\<lparr>prev := last xs\<rparr>,
                 last xs := (jobs s (last xs))\<lparr>next_job := j\<rparr>)"
      using hd lst tl False by (simp add: jobList_add_def Let_def)
    moreover have "jobList (jobList_add j s) =
        (jobList s)\<lparr>tail := j, size_jl := size_jl (jobList s) + 1\<rparr>"
      using hd lst tl False by (simp add: jobList_add_def Let_def)
    ultimately show ?thesis
      using dseg_snoc [OF seg False assms(2,3,4)] sz' False
      by (simp add: jobList_inv_def)
  qed
qed

lemma dseg_redirect:
  "dseg h pr p as q \<Longrightarrow> as \<noteq> [] \<Longrightarrow> distinct as \<Longrightarrow>
   dseg (h(last as := (h (last as))\<lparr>next_job := n\<rparr>)) pr p as n"
proof (induction as arbitrary: pr p)
  case Nil
  then show ?case by simp
next
  case (Cons a as)
  show ?case
  proof (cases "as = []")
    case True
    with Cons.prems show ?thesis by simp
  next
    case False
    then have "last as \<in> set as" by simp
    with Cons.prems have "last as \<noteq> a" by auto
    with Cons.prems Cons.IH [of a "next_job (h a)"] False show ?thesis
      by simp
  qed
qed

lemma dseg_set_prev:
  "dseg h pr p bs q \<Longrightarrow> bs \<noteq> [] \<Longrightarrow> distinct bs \<Longrightarrow>
   dseg (h(hd bs := (h (hd bs))\<lparr>prev := pr'\<rparr>)) pr' p bs q"
  by (cases bs) (simp_all add: dseg_frame)

lemma dseg_head: "dseg h pr p xs NULL \<Longrightarrow> p = (if xs = [] then NULL else hd xs)"
  by (cases xs) auto

lemma jobList_remove_inv:
  assumes "jobList_inv s xs" "j \<in> set xs"
  shows "jobList_inv (jobList_remove j s) (remove1 j xs)"
proof -
  let ?h = "jobs s"
  have seg: "dseg ?h NULL (head (jobList s)) xs NULL"
    and tl: "tail (jobList s) = last (NULL # xs)"
    and sz: "unat (size_jl (jobList s)) = length xs"
    using assms(1) by (simp_all add: jobList_inv_def)
  have dist: "distinct xs" and nn: "NULL \<notin> set xs"
    using seg by (auto dest: dseg_distinct dseg_null_notin)
  obtain as bs where xs: "xs = as @ j # bs"
    using assms(2) by (auto dest: split_list)
  have jas: "j \<notin> set as" "j \<notin> set bs" "set as \<inter> set bs = {}" "distinct as" "distinct bs"
    using dist unfolding xs by auto
  have rm: "remove1 j xs = as @ bs"
    using jas by (simp add: xs remove1_append)
  define p where "p = prev (?h j)"
  define n where "n = next_job (?h j)"
  from seg obtain m where "dseg ?h NULL (head (jobList s)) as m"
    and "dseg ?h (last (NULL # as)) m (j # bs) NULL"
    unfolding xs dseg_append by blast
  then have segA: "dseg ?h NULL (head (jobList s)) as j"
    and p: "p = last (NULL # as)"
    and segB: "dseg ?h j n bs NULL"
    by (simp_all add: p_def n_def)
  have pn: "p \<noteq> NULL \<longleftrightarrow> as \<noteq> []"
  proof (cases "as = []")
    case True
    then show ?thesis by (simp add: p)
  next
    case False
    then have "last as \<in> set xs" by (simp add: xs)
    with nn False show ?thesis by (auto simp: p)
  qed
  have n: "n = (if bs = [] then NULL else hd bs)"
    using segB by (rule dseg_head)
  have nn': "n \<noteq> NULL \<longleftrightarrow> bs \<noteq> []"
  proof (cases "bs = []")
    case True
    then show ?thesis by (simp add: n)
  next
    case False
    then have "hd bs \<in> set xs" by (simp add: xs)
    with nn False show ?thesis by (auto simp: n)
  qed
  define h1 where "h1 = (if p \<noteq> NULL then ?h(p := (?h p)\<lparr>next_job := n\<rparr>) else ?h)"
  define h2 where "h2 = (if n \<noteq> NULL then h1(n := (h1 n)\<lparr>prev := p\<rparr>) else h1)"
  define hd' where "hd' = (if p \<noteq> NULL then head (jobList s) else n)"
  define tl' where "tl' = (if n \<noteq> NULL then tail (jobList s) else p)"
  have jobs': "jobs (jobList_remove j s) = h2"
    by (simp add: jobList_remove_def Let_def h2_def h1_def p_def n_def)
  have jl': "jobList (jobList_remove j s) =
      \<lparr>head = hd', tail = tl', size_jl = size_jl (jobList s) - 1\<rparr>"
    by (simp add: jobList_remove_def Let_def hd'_def tl'_def p_def n_def)
  have A1: "dseg h1 NULL hd' as n"
  proof (cases "as = []")
    case True
    then show ?thesis using pn by (simp add: hd'_def)
  next
    case False
    then have "p = last as" by (simp add: p)
    with dseg_redirect [OF segA False jas(4), of n] pn False show ?thesis
      by (simp add: h1_def hd'_def)
  qed
  have A: "dseg h2 NULL hd' as n"
  proof (cases "bs = []")
    case True
    with A1 nn' show ?thesis by (simp add: h2_def)
  next
    case False
    then have "n \<in> set bs" by (simp add: n)
    then have "n \<notin> set as" using jas(3) by auto
    with A1 nn' False show ?thesis by (simp add: h2_def dseg_frame)
  qed
  have B: "dseg h2 (last (NULL # as)) n bs NULL"
  proof (cases "bs = []")
    case True
    with n show ?thesis by simp
  next
    case False
    then have nhd: "n = hd bs" by (simp add: n)
    have "dseg h1 j n bs NULL"
    proof (cases "as = []")
      case True
      with segB pn show ?thesis by (simp add: h1_def)
    next
      case False
      then have "p \<in> set as" by (simp add: p)
      then have "p \<notin> set bs" using jas(3) by auto
      with segB show ?thesis by (simp add: h1_def dseg_frame)
    qed
    from dseg_set_prev [OF this False jas(5), of p] nn' False show ?thesis
      by (simp add: h2_def nhd [symmetric] p)
  qed
  have S: "dseg h2 NULL hd' (as @ bs) NULL"
    unfolding dseg_append using A B by blast
  have T: "tl' = last (NULL # as @ bs)"
    using tl nn' by (auto simp: tl'_def xs p)
  have "size_jl (jobList s) \<noteq> 0"
    using sz xs by auto
  then have Z: "unat (size_jl (jobList s) - 1) = length (as @ bs)"
    using sz by (simp add: unat_minus_one xs)
  show ?thesis
    unfolding jobList_inv_def jobs' jl' rm using S T Z by simp
qed

lemma call_halt_proj [simp]:
  "jobs (snd (call_halt E h ob thr s)) = jobs s"
  "jobList (snd (call_halt E h ob thr s)) = jobList s"
  "isShutdown (snd (call_halt E h ob thr s)) = isShutdown s"
  "futures (snd (call_halt E h ob thr s)) = futures s"
  "workers (snd (call_halt E h ob thr s)) = workers s"
proof -
  obtain evs where "snd (call_halt E h ob thr s) = s\<lparr>trace := trace s @ Call_halt h ob thr # evs\<rparr>"
    using call_halt_frame by blast
  then show "jobs (snd (call_halt E h ob thr s)) = jobs s"
    "jobList (snd (call_halt E h ob thr s)) = jobList s"
    "isShutdown (snd (call_halt E h ob thr s)) = isShutdown s"
    "futures (snd (call_halt E h ob thr s)) = futures s"
    "workers (snd (call_halt E h ob thr s)) = workers s"
    by simp_all
qed

lemma job_cancel_proj [simp]:
  "jobs (snd (job_cancel E j s)) =
     (jobs s)(j := (jobs s j)\<lparr>canceled := canceled (jobs s j) \<or> state (jobs s j) \<noteq> JOB_COMPLETED\<rparr>)"
  "jobList (snd (job_cancel E j s)) = jobList s"
  "isShutdown (snd (job_cancel E j s)) = isShutdown s"
  "futures (snd (job_cancel E j s)) = futures s"
  "workers (snd (job_cancel E j s)) = workers s"
  by (simp_all add: job_cancel_def Let_def case_prod_beta)

lemma future_cancel_proj [simp]:
  "jobs (snd (future_cancel E f s)) =
     (jobs s)(fjob (futures s f) := (jobs s (fjob (futures s f)))
        \<lparr>canceled := canceled (jobs s (fjob (futures s f))) \<or>
                      state (jobs s (fjob (futures s f))) \<noteq> JOB_COMPLETED\<rparr>)"
  "jobList (snd (future_cancel E f s)) = jobList s"
  "isShutdown (snd (future_cancel E f s)) = isShutdown s"
  "futures (snd (future_cancel E f s)) = futures s"
  "workers (snd (future_cancel E f s)) = workers s"
  by (simp_all add: future_cancel_def)

lemma future_cancels_append [simp]:
  "future_cancels (es @ es') = future_cancels es @ future_cancels es'"
  by (induction es rule: future_cancels.induct) simp_all

lemma call_halt_future_cancels [simp]:
  "future_cancels (trace (snd (call_halt E h ob thr s))) = future_cancels (trace s)"
  by (cases h) (simp_all add: call_halt_def job_defaultHaltFunc_def Let_def)

lemma job_cancel_future_cancels [simp]:
  "future_cancels (trace (snd (job_cancel E j s))) = future_cancels (trace s)"
  by (simp add: job_cancel_def Let_def case_prod_beta)

lemma future_cancel_future_cancels [simp]:
  "future_cancels (trace (snd (future_cancel E f s))) = future_cancels (trace s) @ [f]"
  by (simp add: future_cancel_def)

lemma cancel_each_links:
  "prev (jobs (snd (cancel_each E xs s)) a) = prev (jobs s a) \<and>
   next_job (jobs (snd (cancel_each E xs s)) a) = next_job (jobs s a) \<and>
   future (jobs (snd (cancel_each E xs s)) a) = future (jobs s a)"
  by (induction xs arbitrary: s) (simp_all add: Let_def)

lemma cancel_each_future_cancels:
  "future_cancels (trace (snd (cancel_each E xs s))) =
     future_cancels (trace s) @ map (\<lambda>x. future (jobs s x)) xs"
  by (induction xs arbitrary: s) (simp_all add: Let_def)

lemma first_nonzero_Cons:
  "first_nonzero (st # sts) = (if st \<noteq> 0 then st else first_nonzero sts)"
  by (simp add: first_nonzero_def)

lemma cancelAll_loop_dseg:
  "dseg (jobs s) pr p xs NULL \<Longrightarrow>
   cancelAll_loop E p st s =
     Some (if st = 0 then first_nonzero (fst (cancel_each E xs s)) else st,
           snd (cancel_each E xs s))"
proof (induction xs arbitrary: pr p st s)
  case Nil
  then show ?case
    by (subst cancelAll_loop.simps) (simp add: first_nonzero_def)
next
  case (Cons x xs)
  let ?r = "future_cancel E (future (jobs s x)) s"
  let ?s1 = "if fst ?r \<noteq> 0 then emit (Log_add ''Couldn't cancel job'') (snd ?r) else snd ?r"
  from Cons.prems have px: "p = x" "x \<noteq> NULL" and tl: "dseg (jobs s) x (next_job (jobs s x)) xs NULL"
    by simp_all
  have "dseg (jobs ?s1) x (next_job (jobs s x)) xs NULL = dseg (jobs s) x (next_job (jobs s x)) xs NULL"
    by (rule dseg_links_cong) simp
  with tl have tl1: "dseg (jobs ?s1) x (next_job (jobs s x)) xs NULL"
    by simp
  have step: "cancelAll_loop E p st s =
      cancelAll_loop E (next_job (jobs s x))
        (if fst ?r \<noteq> 0 then (if st = 0 then fst ?r else st) else st) ?s1"
    by (subst cancelAll_loop.simps) (simp add: px Let_def)
  have ce: "cancel_each E (x # xs) s =
      (fst ?r # fst (cancel_each E xs ?s1), snd (cancel_each E xs ?s1))"
    by (simp add: Let_def)
  show ?case
    unfolding step ce Cons.IH [OF tl1] by (simp add: first_nonzero_Cons)
qed

lemma jobList_cancelAll_inv:
  "jobList_inv s xs \<Longrightarrow>
   jobList_cancelAll E s =
     Some (first_nonzero (fst (cancel_each E xs s)), snd (cancel_each E xs s))"
  using cancelAll_loop_dseg [of s NULL "head (jobList s)" xs E 0]
  by (simp add: jobList_cancelAll_def jobList_inv_def)

lemma list_step_inv:
  "jobList_inv s xs \<Longrightarrow> list_op_ok s xs a \<Longrightarrow> jobList_inv (list_step a s) (members_step a xs)"
  by (cases a) (simp_all add: jobList_add_inv jobList_remove_inv)

lemma run_list_ops_inv:
  "jobList_inv s xs \<Longrightarrow> list_ops_ok s xs ops \<Longrightarrow>
   jobList_inv (run_list_ops ops s) (members ops xs)"
  by (induction ops arbitrary: s xs) (simp_all add: list_step_inv)

text \<open>
  C10. Start from the empty list and make any sequence of calls of \<open>jobList_add\<close> and
  \<open>jobList_remove\<close>, each add on a new node (not null, not a member, \<open>prev\<close> and \<open>next\<close>
  null) and each remove on a member. Then the list is well formed for the expected
  sequence of members: \<open>next\<close> leads from \<open>head\<close> through exactly these nodes to null,
  \<open>prev\<close> of each node is the node before it (null for the head), \<open>tail\<close> is the last
  node, and \<open>size\<close>, which \<open>jobList_size\<close> returns, is their number. On such a list
  \<open>jobList_cancelAll\<close> ends, calls \<open>future_cancel\<close> on the future of every node in order,
  whatever the calls return, and returns the first status that is not 0, or 0.
\<close>

theorem jobList_invariant:
  assumes "jobList s = jobList_new" "list_ops_ok s [] ops"
  shows "let s' = run_list_ops ops s; xs = members ops [] in
           jobList_inv s' xs \<and>
           unat (jobList_size s') = length xs \<and>
           jobList_cancelAll E s' =
             Some (first_nonzero (fst (cancel_each E xs s')), snd (cancel_each E xs s')) \<and>
           future_cancels (trace (snd (cancel_each E xs s'))) =
             future_cancels (trace s') @ map (\<lambda>x. future (jobs s' x)) xs"
proof -
  have "jobList_inv s []"
    using assms(1) by (simp add: jobList_inv_def jobList_new_def)
  then have inv: "jobList_inv (run_list_ops ops s) (members ops [])"
    using assms(2) by (rule run_list_ops_inv)
  then have "unat (jobList_size (run_list_ops ops s)) = length (members ops [])"
    by (simp add: jobList_inv_def jobList_size_def)
  with inv show ?thesis
    by (simp add: Let_def jobList_cancelAll_inv cancel_each_future_cancels)
qed

lemma list_ops_example_ok: "list_ops_ok sys0 [] list_ops_example"
  by code_simp

lemma list_ops_example_members: "members list_ops_example [] = [32, 48]"
  by code_simp


lemma list_ops_example_statuses: "fst (cancel_each env_ok [32, 48] (run_list_ops list_ops_example sys0)) = [0,0]"
  by code_simp
lemma first_nonzero_zeros: "first_nonzero [0,0] = 0"
  by code_simp

theorem jobList_invariant_witness:
  "jobList sys0 = jobList_new \<and> list_ops_ok sys0 [] list_ops_example \<and>
   jobList_inv (run_list_ops list_ops_example sys0) [32, 48] \<and>
   unat (jobList_size (run_list_ops list_ops_example sys0)) = 2 \<and>
   map_option fst (jobList_cancelAll env_ok (run_list_ops list_ops_example sys0)) = Some 0"
proof -
  let ?s = "run_list_ops list_ops_example sys0"
  have a: "jobList sys0 = jobList_new"
    by (simp add: sys0_def)
  note th = jobList_invariant [OF a list_ops_example_ok, of env_ok,
      unfolded Let_def list_ops_example_members]
  have i: "jobList_inv ?s [32, 48]" and u: "unat (jobList_size ?s) = 2"
    using th by simp_all
  have "jobList_cancelAll env_ok ?s =
      Some (first_nonzero (fst (cancel_each env_ok [32, 48] ?s)), snd (cancel_each env_ok [32, 48] ?s))"
    using th by blast
  then have c: "map_option fst (jobList_cancelAll env_ok ?s) = Some 0"
    by (simp only: list_ops_example_statuses first_nonzero_zeros option.map fst_conv)
  show ?thesis
    using a list_ops_example_ok i u c by blast
qed

subsection \<open>Shutting down\<close>

lemma cancelAll_loop_isShutdown:
  assumes "cancelAll_loop E p st s = Some r"
  shows "isShutdown (snd r) = isShutdown s"
  using assms
proof (induction rule: cancelAll_loop.raw_induct [rotated 1, consumes 1])
  case (1 loop E jb st s y)
  show ?case
  proof (cases "jb = NULL")
    case True
    with 1(2) show ?thesis by auto
  next
    case False
    let ?r = "future_cancel E (future (jobs s jb)) s"
    show ?thesis
    proof (cases "fst ?r \<noteq> 0")
      case True
      with False 1(2) have "loop E (next_job (jobs s jb)) (if st = 0 then fst ?r else st)
          (emit (Log_add ''Couldn't cancel job'') (snd ?r)) = Some y"
        by (simp add: Let_def)
      from 1(1) [OF this] show ?thesis by simp
    next
      case f: False
      with False 1(2) have "loop E (next_job (jobs s jb)) st (snd ?r) = Some y"
        by (simp add: Let_def)
      from 1(1) [OF this] show ?thesis by simp
    qed
  qed
qed

text \<open>
  C4. \<open>executor_shutdown\<close> is idempotent. When a call of it returns, with either value
  of the flag, the shutdown flag is set, and a second call, with either value of the
  flag, returns 0 and leaves the store as the first call left it: the jobs, the list,
  the shutdown flag and the futures are the same, no job is cancelled, and the trace
  grows by the locking and the unlocking of the executor only.
\<close>

theorem executor_shutdown_idempotent:
  assumes "executor_shutdown E now s = Some r"
  shows "isShutdown (snd r) \<and>
         executor_shutdown E' now' (snd r) =
           Some (0, (snd r)\<lparr>trace := trace (snd r) @ [Executor_lock, Executor_unlock]\<rparr>)"
proof -
  have sh: "isShutdown (snd r)"
  proof (cases "isShutdown s")
    case True
    with assms show ?thesis
      by (auto simp: executor_shutdown_def Let_def)
  next
    case False
    show ?thesis
    proof (cases now)
      case True
      with False assms obtain r' where
        c: "jobList_cancelAll E ((emit Executor_lock s)\<lparr>isShutdown := True\<rparr>) = Some r'"
        and r: "r = (fst r', emit Executor_unlock (snd r'))"
        by (auto simp: executor_shutdown_def Let_def split: option.splits)
      from c have "isShutdown (snd r')"
        by (auto simp: jobList_cancelAll_def dest: cancelAll_loop_isShutdown)
      with r show ?thesis by simp
    next
      case f: False
      with False assms show ?thesis
        by (auto simp: executor_shutdown_def Let_def)
    qed
  qed
  then show ?thesis
    by (simp add: executor_shutdown_def Let_def emit_def)
qed

lemma executor_shutdown_returns:
  assumes "jobList_inv s xs"
  shows "\<exists>r. executor_shutdown E now s = Some r"
proof -
  have "jobList_inv ((emit Executor_lock s)\<lparr>isShutdown := True\<rparr>) xs"
    using assms by (simp add: jobList_inv_def)
  then show ?thesis
    by (simp add: executor_shutdown_def Let_def jobList_cancelAll_inv)
qed

lemma sys_submitted_inv: "jobList_inv sys_submitted [32]"
  by code_simp

theorem executor_shutdown_idempotent_witness:
  "\<exists>r. executor_shutdown env_ok True sys_submitted = Some r \<and> isShutdown (snd r) \<and>
       executor_shutdown env_halt_fails True (snd r) =
         Some (0, (snd r)\<lparr>trace := trace (snd r) @ [Executor_lock, Executor_unlock]\<rparr>)"
proof -
  obtain r where r: "executor_shutdown env_ok True sys_submitted = Some r"
    using executor_shutdown_returns [OF sys_submitted_inv] by blast
  from executor_shutdown_idempotent [OF r, of env_halt_fails True] r show ?thesis
    by blast
qed

subsection \<open>Submitting a job\<close>

lemma pthread_creates_append [simp]:
  "pthread_creates (es @ es') = pthread_creates es @ pthread_creates es'"
  by (induction es rule: pthread_creates.induct) simp_all

lemma job_new_proj [simp]:
  "jobList (snd (job_new E fut ob rn hl s)) = jobList s"
  "isShutdown (snd (job_new E fut ob rn hl s)) = isShutdown s"
  "workers (snd (job_new E fut ob rn hl s)) = workers s"
  by (simp_all add: job_new_def Let_def case_prod_beta future_setJob_def)

lemma job_new_jobs:
  "a \<noteq> log_malloc E (trace s) \<Longrightarrow> jobs (snd (job_new E fut ob rn hl s)) a = jobs s a"
  by (simp add: job_new_def Let_def case_prod_beta future_setJob_def)

lemma job_new_result:
  "fst (job_new E fut ob rn hl s) \<noteq> NULL \<Longrightarrow>
   fst (job_new E fut ob rn hl s) = log_malloc E (trace s)"
  by (simp add: job_new_def Let_def case_prod_beta split: if_splits)

lemma job_new_fresh:
  assumes "fst (job_new E fut ob rn hl s) \<noteq> NULL"
  shows "state (jobs (snd (job_new E fut ob rn hl s)) (fst (job_new E fut ob rn hl s))) = JOB_INITIALIZED"
    and "prev (jobs (snd (job_new E fut ob rn hl s)) (fst (job_new E fut ob rn hl s))) = NULL"
    and "next_job (jobs (snd (job_new E fut ob rn hl s)) (fst (job_new E fut ob rn hl s))) = NULL"
    and "future (jobs (snd (job_new E fut ob rn hl s)) (fst (job_new E fut ob rn hl s))) = fut"
  using assms
  by (simp_all add: job_new_def Let_def case_prod_beta future_setJob_def split: if_splits)

lemma job_new_trace:
  "\<exists>evs. trace (snd (job_new E fut ob rn hl s)) = trace s @ evs \<and> pthread_creates evs = [] \<and>
     (log_malloc E (trace s) = NULL \<or> fst (job_new E fut ob rn hl s) \<noteq> NULL \<or>
      Free (log_malloc E (trace s)) \<in> set evs)"
proof -
  have "trace (snd (job_new E fut ob rn hl s)) =
      trace s @ drop (length (trace s)) (trace (snd (job_new E fut ob rn hl s)))"
    by (simp add: job_new_def Let_def case_prod_beta future_setJob_def)
  moreover have "pthread_creates (drop (length (trace s)) (trace (snd (job_new E fut ob rn hl s)))) = []"
    by (simp add: job_new_def Let_def case_prod_beta future_setJob_def)
  moreover have "log_malloc E (trace s) = NULL \<or> fst (job_new E fut ob rn hl s) \<noteq> NULL \<or>
      Free (log_malloc E (trace s)) \<in> set (drop (length (trace s)) (trace (snd (job_new E fut ob rn hl s))))"
    by (simp add: job_new_def Let_def case_prod_beta future_setJob_def)
  ultimately show ?thesis by blast
qed

lemma executor_submitJob_shutdown:
  "isShutdown s \<Longrightarrow>
   executor_submitJob E j s =
     (EPERM, s\<lparr>trace := trace s @ [Executor_lock, Log_add ''Executor is shut down'', Executor_unlock]\<rparr>)"
  by (simp add: executor_submitJob_def Let_def emit_def)

lemma executor_submit_unfold:
  assumes "future_new E (trace s) \<noteq> NULL"
    and "fst (job_new E (future_new E (trace s)) ob rn hl (emit (Future_new (future_new E (trace s))) s)) \<noteq> NULL"
  shows "executor_submit E ob rn hl s =
     (let fut = future_new E (trace s);
          r1 = job_new E fut ob rn hl (emit (Future_new fut) s);
          r2 = executor_submitJob E (fst r1) (snd r1)
      in if fst r2 \<noteq> 0
         then (case job_free (fst r1) (snd r2) of
                 None \<Rightarrow> None
               | Some s3 \<Rightarrow> Some (NULL, future_free fut s3))
         else Some (fut, snd r2))"
  using assms
  by (simp add: executor_submit_def Let_def case_prod_beta split: option.splits)

text \<open>
  C3. On an executor whose shutdown flag is set, \<open>executor_submitJob\<close> returns \<open>EPERM\<close>, and
  \<open>executor_submit\<close> returns the null pointer, whatever the allocations return. The list of
  jobs, the shutdown flag and the threads are unchanged, no job other than the one just
  allocated is written, and \<open>pthread_create\<close> is not called. The future, if one was
  created, is freed; the job, if one was allocated, is freed; and when the job was built
  the rejection is logged.
\<close>

theorem executor_submit_shutdown:
  assumes "isShutdown s"
  shows "fst (executor_submitJob E j s) = EPERM \<and>
     (let fut = future_new E (trace s);
          jb = log_malloc E (trace s @ [Future_new fut])
      in \<exists>s' evs.
           executor_submit E ob rn hl s = Some (NULL, s') \<and>
           jobList s' = jobList s \<and> isShutdown s' \<and> workers s' = workers s \<and>
           jobs s' = (jobs s)(jb := jobs s' jb) \<and>
           trace s' = trace s @ evs \<and> pthread_creates evs = [] \<and>
           (fut = NULL \<or> Future_free fut \<in> set evs) \<and>
           (fut = NULL \<or> jb = NULL \<or> Free jb \<in> set evs) \<and>
           (fut = NULL \<or> fst (job_new E fut ob rn hl (emit (Future_new fut) s)) = NULL \<or>
            Log_add ''Executor is shut down'' \<in> set evs))"
proof -
  define fut where "fut = future_new E (trace s)"
  define jb where "jb = log_malloc E (trace s @ [Future_new fut])"
  define s0 where "s0 = emit (Future_new fut) s"
  define r1 where "r1 = job_new E fut ob rn hl s0"
  have jb0: "jb = log_malloc E (trace s0)"
    by (simp add: jb_def s0_def)
  obtain evs1 where evs1: "trace (snd r1) = trace s0 @ evs1" "pthread_creates evs1 = []"
    "jb = NULL \<or> fst r1 \<noteq> NULL \<or> Free jb \<in> set evs1"
    unfolding r1_def jb0 using job_new_trace [of E fut ob rn hl s0] by blast
  have sh1: "isShutdown (snd r1)"
    using assms by (simp add: r1_def s0_def)
  have jobs1: "jobs (snd r1) = (jobs s)(jb := jobs (snd r1) jb)"
    by (rule ext) (simp add: r1_def jb0 job_new_jobs, simp add: s0_def)
  have main: "\<exists>s' evs.
           executor_submit E ob rn hl s = Some (NULL, s') \<and>
           jobList s' = jobList s \<and> isShutdown s' \<and> workers s' = workers s \<and>
           jobs s' = (jobs s)(jb := jobs s' jb) \<and>
           trace s' = trace s @ evs \<and> pthread_creates evs = [] \<and>
           (fut = NULL \<or> Future_free fut \<in> set evs) \<and>
           (fut = NULL \<or> jb = NULL \<or> Free jb \<in> set evs) \<and>
           (fut = NULL \<or> fst r1 = NULL \<or> Log_add ''Executor is shut down'' \<in> set evs)"
  proof (cases "fut = NULL")
    case True
    then have "executor_submit E ob rn hl s =
        Some (NULL, emit (Log_add ''Couldn't create new future'') s0)"
      by (simp add: executor_submit_def Let_def fut_def s0_def)
    with True assms show ?thesis
      by (simp add: s0_def)
  next
    case False
    show ?thesis
    proof (cases "fst r1 = NULL")
      case True
      with False have "executor_submit E ob rn hl s =
          Some (NULL, future_free fut (emit (Log_add ''Couldn't create new job'') (snd r1)))"
        by (simp add: executor_submit_def Let_def case_prod_beta fut_def s0_def r1_def)
      moreover have "trace (future_free fut (emit (Log_add ''Couldn't create new job'') (snd r1))) =
          trace s @ (Future_new fut # evs1 @ [Log_add ''Couldn't create new job'', Future_free fut])"
        by (simp add: future_free_def evs1 s0_def)
      ultimately show ?thesis
        using True assms sh1 jobs1 evs1
        by (simp add: future_free_def r1_def s0_def)
    next
      case f: False
      then have r1: "fst r1 = jb"
        unfolding r1_def jb0 by (rule job_new_result)
      have st: "state (jobs (snd r1) jb) = JOB_INITIALIZED"
        using f job_new_fresh(1) [of E fut ob rn hl s0] by (simp add: r1_def [symmetric] r1)
      let ?s2 = "(snd r1)\<lparr>trace := trace (snd r1) @
           [Executor_lock, Log_add ''Executor is shut down'', Executor_unlock]\<rparr>"
      let ?s' = "future_free fut (emit (Free jb) (emit (Mutex_destroy jb) (emit (Cond_destroy jb) ?s2)))"
      have "executor_submit E ob rn hl s = Some (NULL, ?s')"
        using False f st
        by (simp add: executor_submit_unfold fut_def [symmetric] s0_def [symmetric]
            r1_def [symmetric] executor_submitJob_shutdown [OF sh1] Let_def r1 EPERM_def job_free_def)
      moreover have "trace ?s' = trace s @ (Future_new fut # evs1 @
          [Executor_lock, Log_add ''Executor is shut down'', Executor_unlock,
           Cond_destroy jb, Mutex_destroy jb, Free jb, Future_free fut])"
        by (simp add: future_free_def evs1 s0_def)
      ultimately show ?thesis
        using assms sh1 jobs1 evs1
        by (simp add: future_free_def r1_def s0_def)
    qed
  qed
  show ?thesis
    using assms main
    by (simp add: executor_submitJob_shutdown Let_def fut_def jb_def r1_def s0_def)
qed

lemma sys_shutdown_flag: "isShutdown sys_shutdown"
  by code_simp

theorem executor_submit_shutdown_witness:
  "isShutdown sys_shutdown \<and>
   fst (executor_submitJob env_ok 64 sys_shutdown) = EPERM \<and>
   (\<exists>s'. executor_submit env_ok 5 7 None sys_shutdown = Some (NULL, s') \<and>
         jobList s' = jobList sys_shutdown \<and> workers s' = workers sys_shutdown \<and>
         pthread_creates (trace s') = pthread_creates (trace sys_shutdown))"
proof -
  note th = executor_submit_shutdown [OF sys_shutdown_flag, of env_ok 64 5 7 None,
      unfolded Let_def]
  from th have "fst (executor_submitJob env_ok 64 sys_shutdown) = EPERM"
    by blast
  moreover from th obtain s' evs where
    "executor_submit env_ok 5 7 None sys_shutdown = Some (NULL, s')"
    "jobList s' = jobList sys_shutdown" "workers s' = workers sys_shutdown"
    "trace s' = trace sys_shutdown @ evs" "pthread_creates evs = []"
    by blast
  ultimately show ?thesis
    using sys_shutdown_flag by auto
qed

lemma jobList_add_proj [simp]:
  "isShutdown (jobList_add j s) = isShutdown s"
  "futures (jobList_add j s) = futures s"
  "workers (jobList_add j s) = workers s"
  "trace (jobList_add j s) = trace s"
  by (simp_all add: jobList_add_def Let_def)

lemma jobList_remove_proj [simp]:
  "isShutdown (jobList_remove j s) = isShutdown s"
  "futures (jobList_remove j s) = futures s"
  "workers (jobList_remove j s) = workers s"
  "trace (jobList_remove j s) = trace s"
  by (simp_all add: jobList_remove_def Let_def)

lemma jobList_add_fields [simp]:
  "state (jobs (jobList_add j s) a) = state (jobs s a)"
  "canceled (jobs (jobList_add j s) a) = canceled (jobs s a)"
  "future (jobs (jobList_add j s) a) = future (jobs s a)"
  "thread (jobs (jobList_add j s) a) = thread (jobs s a)"
  "obj (jobs (jobList_add j s) a) = obj (jobs s a)"
  "run (jobs (jobList_add j s) a) = run (jobs s a)"
  "halt (jobs (jobList_add j s) a) = halt (jobs s a)"
  by (simp_all add: jobList_add_def Let_def)

lemma jobList_remove_fields [simp]:
  "state (jobs (jobList_remove j s) a) = state (jobs s a)"
  "canceled (jobs (jobList_remove j s) a) = canceled (jobs s a)"
  "future (jobs (jobList_remove j s) a) = future (jobs s a)"
  "thread (jobs (jobList_remove j s) a) = thread (jobs s a)"
  "obj (jobs (jobList_remove j s) a) = obj (jobs s a)"
  "run (jobs (jobList_remove j s) a) = run (jobs s a)"
  "halt (jobs (jobList_remove j s) a) = halt (jobs s a)"
  by (simp_all add: jobList_remove_def Let_def)

lemma jobList_inv_cong:
  "jobs t = jobs s \<Longrightarrow> jobList t = jobList s \<Longrightarrow> jobList_inv t xs = jobList_inv s xs"
  by (simp add: jobList_inv_def)

lemma jobList_remove_cong:
  "jobs t = jobs s \<Longrightarrow> jobList t = jobList s \<Longrightarrow>
   jobs (jobList_remove j t) = jobs (jobList_remove j s) \<and>
   jobList (jobList_remove j t) = jobList (jobList_remove j s)"
  by (simp add: jobList_remove_def Let_def)

lemma jobList_add_remove:
  assumes "jobList_inv s xs" "j \<noteq> NULL" "j \<notin> set xs" "next_job (jobs s j) = NULL"
  shows "jobList (jobList_remove j (jobList_add j s)) = jobList s"
    and "a \<noteq> j \<Longrightarrow> jobs (jobList_remove j (jobList_add j s)) a = jobs s a"
proof -
  have seg: "dseg (jobs s) NULL (head (jobList s)) xs NULL"
    and tl: "tail (jobList s) = last (NULL # xs)"
    using assms(1) by (simp_all add: jobList_inv_def)
  have both: "jobList (jobList_remove j (jobList_add j s)) = jobList s \<and>
      (a \<noteq> j \<longrightarrow> jobs (jobList_remove j (jobList_add j s)) a = jobs s a)"
  proof (cases "xs = []")
    case True
    with seg tl assms show ?thesis
      by (simp add: jobList_add_def jobList_remove_def Let_def)
  next
    case False
    then have hd: "head (jobList s) \<noteq> NULL"
      using seg by (cases xs) auto
    have "last xs \<in> set xs"
      using False by simp
    then have lst: "last xs \<noteq> NULL" "last xs \<noteq> j"
      using assms(3) dseg_null_notin [OF seg] by metis+
    have nl: "next_job (jobs s (last xs)) = NULL"
      using seg False by (rule dseg_last)
    have r: "(jobs s (last xs))\<lparr>next_job := NULL\<rparr> = jobs s (last xs)"
      using nl by (cases "jobs s (last xs)") simp
    show ?thesis
      using hd lst tl False assms(2,4) r
      by (simp add: jobList_add_def jobList_remove_def Let_def)
  qed
  from both show "jobList (jobList_remove j (jobList_add j s)) = jobList s"
    by simp
  from both show "a \<noteq> j \<Longrightarrow> jobs (jobList_remove j (jobList_add j s)) a = jobs s a"
    by simp
qed

lemma job_new_inv:
  assumes "jobList_inv s xs" "log_malloc E (trace s) \<notin> set xs"
  shows "jobList_inv (snd (job_new E fut ob rn hl s)) xs"
proof -
  have "\<And>x. x \<in> set xs \<Longrightarrow> jobs (snd (job_new E fut ob rn hl s)) x = jobs s x"
    using assms(2) by (intro job_new_jobs) auto
  then have "dseg (jobs (snd (job_new E fut ob rn hl s))) NULL (head (jobList s)) xs NULL =
      dseg (jobs s) NULL (head (jobList s)) xs NULL"
    by (intro dseg_links_cong) simp
  with assms(1) show ?thesis
    by (simp add: jobList_inv_def)
qed


lemma executor_submitJob_nothread:
  assumes "\<not> isShutdown s" "pthread_create E (trace s @ [Executor_lock]) j = (st, thr)" "st \<noteq> 0"
  shows "executor_submitJob E j s =
     (st, emit Executor_unlock (jobList_remove j
            (emit (Log_add_errno st ''Couldn't create job's thread'')
               (emit (Pthread_create j st) (jobList_add j (emit Executor_lock s))))))"
  using assms by (simp add: executor_submitJob_def Let_def)

lemma executor_submitJob_thread:
  assumes "\<not> isShutdown s" "pthread_create E (trace s @ [Executor_lock]) j = (0, thr)"
  shows "executor_submitJob E j s =
     (0, emit Executor_unlock (emit (Pthread_detach thr)
           ((emit (Pthread_create j 0) (jobList_add j (emit Executor_lock s)))
              \<lparr>workers := (workers s)(j := \<lparr>tid = thr, pc = At_entry,
                                             run_status = 0, run_result = NULL\<rparr>)\<rparr>)))"
  using assms by (simp add: executor_submitJob_def Let_def)

lemma executor_submit_success:
  assumes inv: "jobList_inv s xs" and ns: "\<not> isShutdown s"
    and fut: "future_new E (trace s) \<noteq> NULL"
    and jn: "job_new E (future_new E (trace s)) ob rn hl
               (emit (Future_new (future_new E (trace s))) s) = (jb, s1)"
    and jb: "jb \<noteq> NULL" "jb \<notin> set xs"
    and pc: "pthread_create E (trace s1 @ [Executor_lock]) jb = (0, thr)"
  shows "\<exists>s'. executor_submit E ob rn hl s = Some (future_new E (trace s), s') \<and>
           jobList_inv s' (xs @ [jb]) \<and> \<not> isShutdown s' \<and> pc (workers s' jb) = At_entry"
proof -
  let ?fut = "future_new E (trace s)"
  let ?s0 = "emit (Future_new ?fut) s"
  have r1: "fst (job_new E ?fut ob rn hl ?s0) = jb" "snd (job_new E ?fut ob rn hl ?s0) = s1"
    using jn by simp_all
  have jbm: "jb = log_malloc E (trace ?s0)"
    using job_new_result [of E ?fut ob rn hl ?s0] jb(1) r1 by simp
  have "jobList_inv ?s0 xs"
    using inv by (simp add: jobList_inv_def)
  then have inv1: "jobList_inv s1 xs"
    using job_new_inv [of ?s0 xs E ?fut ob rn hl] jb(2) jbm r1 by simp
  have ns1: "\<not> isShutdown s1"
    using ns job_new_proj(2) [of E ?fut ob rn hl ?s0] r1 by simp
  have nx: "next_job (jobs s1 jb) = NULL"
    using job_new_fresh(3) [of E ?fut ob rn hl ?s0] jb(1) r1 by simp
  let ?s2 = "emit Executor_unlock (emit (Pthread_detach thr)
           ((emit (Pthread_create jb 0) (jobList_add jb (emit Executor_lock s1)))
              \<lparr>workers := (workers s1)(jb := \<lparr>tid = thr, pc = At_entry,
                                             run_status = 0, run_result = NULL\<rparr>)\<rparr>))"
  have sj: "executor_submitJob E jb s1 = (0, ?s2)"
    using ns1 pc by (rule executor_submitJob_thread)
  have "executor_submit E ob rn hl s = Some (?fut, ?s2)"
    using fut jb(1) r1 sj by (simp add: executor_submit_unfold Let_def)
  moreover have "jobList_inv (emit Executor_lock s1) xs"
    using inv1 by (simp add: jobList_inv_def)
  then have "jobList_inv (jobList_add jb (emit Executor_lock s1)) (xs @ [jb])"
    using jb nx by (intro jobList_add_inv) simp_all
  then have "jobList_inv ?s2 (xs @ [jb])"
    by (simp add: jobList_inv_def)
  ultimately show ?thesis
    using ns1 by auto
qed

text \<open>
  C9. Let the list be well formed and the executor not shut down, let the future and the
  job of a submission be built (the job at an address that is not a member of the
  list), and let \<open>pthread_create\<close> fail with the status \<open>st\<close>. Then \<open>executor_submitJob\<close>
  returns \<open>st\<close> and \<open>executor_submit\<close> returns the null pointer. Afterwards the list
  structure is as before the submission (\<open>head\<close>, \<open>tail\<close>, \<open>size\<close> and every job other than
  the new one), no thread was added, the failure is logged, and the job and its future
  are freed. The executor remains usable: it is not shut down, the list is well formed,
  and a later submission whose allocations and thread creation succeed returns its
  future and appends its job to the list.
\<close>

theorem executor_submit_thread_failure:
  assumes inv: "jobList_inv s xs" and ns: "\<not> isShutdown s"
    and fut: "future_new E (trace s) \<noteq> NULL"
    and jn: "job_new E (future_new E (trace s)) ob rn hl
               (emit (Future_new (future_new E (trace s))) s) = (jb, s1)"
    and jb: "jb \<noteq> NULL" "jb \<notin> set xs"
    and pc: "pthread_create E (trace s1 @ [Executor_lock]) jb = (st, thr)"
    and st: "st \<noteq> 0"
  shows "fst (executor_submitJob E jb s1) = st \<and>
     (\<exists>s' evs.
        executor_submit E ob rn hl s = Some (NULL, s') \<and>
        jobList s' = jobList s \<and> jobList_inv s' xs \<and>
        jobs s' = (jobs s)(jb := jobs s' jb) \<and>
        workers s' = workers s \<and> \<not> isShutdown s' \<and>
        trace s' = trace s @ evs \<and>
        Log_add_errno st ''Couldn't create job's thread'' \<in> set evs \<and>
        Free jb \<in> set evs \<and> Future_free (future_new E (trace s)) \<in> set evs \<and>
        (\<forall>E2 ob2 rn2 hl2 jb2 s2 thr2.
           future_new E2 (trace s') \<noteq> NULL \<longrightarrow>
           job_new E2 (future_new E2 (trace s')) ob2 rn2 hl2
             (emit (Future_new (future_new E2 (trace s'))) s') = (jb2, s2) \<longrightarrow>
           jb2 \<noteq> NULL \<longrightarrow> jb2 \<notin> set xs \<longrightarrow>
           pthread_create E2 (trace s2 @ [Executor_lock]) jb2 = (0, thr2) \<longrightarrow>
           (\<exists>s''. executor_submit E2 ob2 rn2 hl2 s' = Some (future_new E2 (trace s'), s'') \<and>
                  jobList_inv s'' (xs @ [jb2]))))"
proof -
  let ?fut = "future_new E (trace s)"
  let ?s0 = "emit (Future_new ?fut) s"
  have r1: "fst (job_new E ?fut ob rn hl ?s0) = jb" "snd (job_new E ?fut ob rn hl ?s0) = s1"
    using jn by simp_all
  have jbm: "jb = log_malloc E (trace ?s0)"
    using job_new_result [of E ?fut ob rn hl ?s0] jb(1) r1 by simp
  have "jobList_inv ?s0 xs"
    using inv by (simp add: jobList_inv_def)
  then have inv1: "jobList_inv s1 xs"
    using job_new_inv [of ?s0 xs E ?fut ob rn hl] jb(2) jbm r1 by simp
  have ns1: "\<not> isShutdown s1"
    using ns job_new_proj(2) [of E ?fut ob rn hl ?s0] r1 by simp
  have w1: "workers s1 = workers s"
    using job_new_proj(3) [of E ?fut ob rn hl ?s0] r1 by simp
  have jl1: "jobList s1 = jobList s"
    using job_new_proj(1) [of E ?fut ob rn hl ?s0] r1 by simp
  have nx: "next_job (jobs s1 jb) = NULL"
    using job_new_fresh(3) [of E ?fut ob rn hl ?s0] jb(1) r1 by simp
  have ini: "state (jobs s1 jb) = JOB_INITIALIZED"
    using job_new_fresh(1) [of E ?fut ob rn hl ?s0] jb(1) r1 by simp
  have jobs1: "\<And>a. a \<noteq> jb \<Longrightarrow> jobs s1 a = jobs s a"
    using job_new_jobs [of _ E ?s0 ?fut ob rn hl] jbm r1 by simp
  obtain evs1 where evs1: "trace s1 = trace ?s0 @ evs1"
    using job_new_trace [of E ?fut ob rn hl ?s0] r1 by auto
  let ?l = "emit Executor_lock s1"
  let ?t = "emit (Log_add_errno st ''Couldn't create job's thread'')
               (emit (Pthread_create jb st) (jobList_add jb ?l))"
  let ?s2 = "emit Executor_unlock (jobList_remove jb ?t)"
  have sj: "executor_submitJob E jb s1 = (st, ?s2)"
    using ns1 pc st by (rule executor_submitJob_nothread)
  have invl: "jobList_inv ?l xs"
    using inv1 by (simp add: jobList_inv_def)
  have nxl: "next_job (jobs ?l jb) = NULL"
    using nx by simp
  have cong: "jobs (jobList_remove jb ?t) = jobs (jobList_remove jb (jobList_add jb ?l))"
    "jobList (jobList_remove jb ?t) = jobList (jobList_remove jb (jobList_add jb ?l))"
    using jobList_remove_cong [of ?t "jobList_add jb ?l" jb] by simp_all
  have jl2: "jobList ?s2 = jobList s"
    using jobList_add_remove(1) [OF invl jb nxl] cong jl1 by simp
  have jobs2: "\<And>a. a \<noteq> jb \<Longrightarrow> jobs ?s2 a = jobs s a"
    using jobList_add_remove(2) [OF invl jb nxl] cong jobs1 by simp
  have ini2: "state (jobs ?s2 jb) = JOB_INITIALIZED"
    using ini by simp
  let ?s' = "future_free ?fut (emit (Free jb) (emit (Mutex_destroy jb) (emit (Cond_destroy jb) ?s2)))"
  have res: "executor_submit E ob rn hl s = Some (NULL, ?s')"
    using fut jb(1) r1 sj st ini2
    by (simp add: executor_submit_unfold Let_def job_free_def)
  have jl': "jobList ?s' = jobList s"
    using jl2 by (simp add: future_free_def)
  have jobs': "jobs ?s' = (jobs s)(jb := jobs ?s' jb)"
    by (rule ext) (use jobs2 in \<open>simp add: future_free_def\<close>)
  have "\<And>x. x \<in> set xs \<Longrightarrow> jobs ?s' x = jobs s x"
  proof -
    fix x assume "x \<in> set xs"
    with jb(2) have "x \<noteq> jb" by auto
    then show "jobs ?s' x = jobs s x"
      using jobs2 by (simp add: future_free_def)
  qed
  then have "dseg (jobs ?s') NULL (head (jobList s)) xs NULL = dseg (jobs s) NULL (head (jobList s)) xs NULL"
    by (intro dseg_links_cong) simp
  then have inv': "jobList_inv ?s' xs"
    using inv jl' by (simp add: jobList_inv_def)
  have w': "workers ?s' = workers s"
    using w1 by (simp add: future_free_def)
  have ns': "\<not> isShutdown ?s'"
    using ns1 by (simp add: future_free_def)
  define evs where "evs = Future_new ?fut # evs1 @
      [Executor_lock, Pthread_create jb st, Log_add_errno st ''Couldn't create job's thread'',
       Executor_unlock, Cond_destroy jb, Mutex_destroy jb, Free jb, Future_free ?fut]"
  have tr': "trace ?s' = trace s @ evs"
    by (simp add: future_free_def evs1 evs_def)
  have mem: "Log_add_errno st ''Couldn't create job's thread'' \<in> set evs"
    "Free jb \<in> set evs" "Future_free ?fut \<in> set evs"
    by (simp_all add: evs_def)
  have again: "\<forall>E2 ob2 rn2 hl2 jb2 s2 thr2.
           future_new E2 (trace ?s') \<noteq> NULL \<longrightarrow>
           job_new E2 (future_new E2 (trace ?s')) ob2 rn2 hl2
             (emit (Future_new (future_new E2 (trace ?s'))) ?s') = (jb2, s2) \<longrightarrow>
           jb2 \<noteq> NULL \<longrightarrow> jb2 \<notin> set xs \<longrightarrow>
           pthread_create E2 (trace s2 @ [Executor_lock]) jb2 = (0, thr2) \<longrightarrow>
           (\<exists>s''. executor_submit E2 ob2 rn2 hl2 ?s' = Some (future_new E2 (trace ?s'), s'') \<and>
                  jobList_inv s'' (xs @ [jb2]))"
    using executor_submit_success [OF inv' ns'] by blast
  show ?thesis
    using sj res jl' inv' jobs' w' ns' again tr' mem
    by (intro conjI exI [of _ ?s'] exI [of _ evs]) simp_all
qed

lemma sys_submitted_running: "\<not> isShutdown sys_submitted"
  by code_simp

lemma sys_submitted_future_new: "future_new env_nothread (trace sys_submitted) = 152"
  by code_simp

lemma sys_submitted_job_new:
  "fst (job_new env_nothread 152 5 7 None (emit (Future_new 152) sys_submitted)) = 176"
  by code_simp

lemma sys_nothread_submit:
  "map_option fst (executor_submit env_ok 6 8 None sys_nothread) = Some 360"
  by code_simp

theorem executor_submit_thread_failure_witness:
  "jobList_inv sys_submitted [32] \<and> \<not> isShutdown sys_submitted \<and>
   executor_submit env_nothread 5 7 None sys_submitted = Some (NULL, sys_nothread) \<and>
   jobList sys_nothread = jobList sys_submitted \<and> jobList_inv sys_nothread [32] \<and>
   workers sys_nothread = workers sys_submitted \<and> \<not> isShutdown sys_nothread \<and>
   map_option fst (executor_submit env_ok 6 8 None sys_nothread) = Some 360"
proof -
  let ?s1 = "snd (job_new env_nothread 152 5 7 None (emit (Future_new 152) sys_submitted))"
  have jn: "job_new env_nothread (future_new env_nothread (trace sys_submitted)) 5 7 None
      (emit (Future_new (future_new env_nothread (trace sys_submitted))) sys_submitted) = (176, ?s1)"
    unfolding sys_submitted_future_new using sys_submitted_job_new
    by (metis prod.collapse)
  have pc: "pthread_create env_nothread (trace ?s1 @ [Executor_lock]) 176 = (11, 0)"
    by (simp add: env_nothread_def)
  have fut: "future_new env_nothread (trace sys_submitted) \<noteq> NULL"
    by (simp add: sys_submitted_future_new)
  from executor_submit_thread_failure [OF sys_submitted_inv sys_submitted_running fut jn _ _ pc]
  obtain s' where s': "executor_submit env_nothread 5 7 None sys_submitted = Some (NULL, s')"
    "jobList s' = jobList sys_submitted" "jobList_inv s' [32]"
    "workers s' = workers sys_submitted" "\<not> isShutdown s'"
    by auto
  from s'(1) have "sys_nothread = s'"
    by (simp add: sys_nothread_def)
  with s' sys_submitted_inv sys_submitted_running sys_nothread_submit show ?thesis
    by simp
qed

subsection \<open>The worker thread and the state of its job\<close>

lemma future_setResult_proj [simp]:
  "jobs (future_setResult f st r c s) = jobs s"
  "jobList (future_setResult f st r c s) = jobList s"
  "isShutdown (future_setResult f st r c s) = isShutdown s"
  "workers (future_setResult f st r c s) = workers s"
  "trace (future_setResult f st r c s) = trace s @ [Future_setResult f st r c]"
  by (simp_all add: future_setResult_def Let_def)

lemma future_setResult_futures:
  "futures (future_setResult f st r c s) =
     (if fresult (futures s f) = None
      then (futures s)(f := (futures s f)\<lparr>fresult := Some (st, r, c)\<rparr>) else futures s)"
  by (simp add: future_setResult_def Let_def)

lemma executor_remove_proj [simp]:
  "isShutdown (executor_remove j s) = isShutdown s"
  "futures (executor_remove j s) = futures s"
  "workers (executor_remove j s) = workers s"
  "trace (executor_remove j s) = trace s @ [Executor_lock, Executor_unlock]"
  "state (jobs (executor_remove j s) a) = state (jobs s a)"
  "canceled (jobs (executor_remove j s) a) = canceled (jobs s a)"
  "future (jobs (executor_remove j s) a) = future (jobs s a)"
  by (simp_all add: executor_remove_def)

lemma job_run_step_entry:
  "pc (workers s j) = At_entry \<Longrightarrow>
   job_run_step E j s =
     (if \<not> canceled (jobs s j)
      then s\<lparr>jobs := (jobs s)(j := (jobs s j)\<lparr>thread := tid (workers s j), state := JOB_EXECUTING\<rparr>),
             workers := (workers s)(j := (workers s j)\<lparr>run_result := NULL, run_status := 0, pc := At_call\<rparr>),
             trace := trace s @ [Job_lock j, Job_unlock j]\<rparr>
      else s\<lparr>workers := (workers s)(j := (workers s j)\<lparr>run_result := NULL, run_status := 0, pc := At_remove\<rparr>),
             trace := trace s @ [Job_lock j, Job_unlock j]\<rparr>)"
  by (simp add: job_run_step_def Let_def emit_def upd_worker_def upd_job_def)

lemma job_run_step_call:
  "pc (workers s j) = At_call \<Longrightarrow>
   job_run_step E j s =
     s\<lparr>workers := (workers s)(j := (workers s j)
          \<lparr>run_status := fst (user_run E (trace s) (run (jobs s j)) (obj (jobs s j))),
            run_result := snd (user_run E (trace s) (run (jobs s j)) (obj (jobs s j))),
            pc := At_completion\<rparr>),
       trace := trace s @ [Call_run j (run (jobs s j)) (obj (jobs s j))]\<rparr>"
  by (simp add: job_run_step_def Let_def emit_def upd_worker_def)

lemma job_run_step_completion:
  "pc (workers s j) = At_completion \<Longrightarrow>
   job_run_step E j s =
     s\<lparr>jobs := (jobs s)(j := (jobs s j)\<lparr>state := JOB_COMPLETED\<rparr>),
       workers := (workers s)(j := (workers s j)\<lparr>pc := At_remove\<rparr>),
       trace := trace s @ [Job_lock j, Job_unlock j]\<rparr>"
  by (simp add: job_run_step_def Let_def emit_def upd_worker_def upd_job_def)

lemma job_run_step_remove:
  "pc (workers s j) = At_remove \<Longrightarrow>
   job_run_step E j s = upd_worker j (\<lambda>w. w\<lparr>pc := At_publish\<rparr>) (executor_remove j s)"
  by (simp add: job_run_step_def)

lemma job_run_step_publish:
  "pc (workers s j) = At_publish \<Longrightarrow>
   job_run_step E j s =
     upd_worker j (\<lambda>w. w\<lparr>pc := Returned\<rparr>)
       (future_setResult (future (jobs s j)) (run_status (workers s j))
          (run_result (workers s j)) (canceled (jobs s j)) s)"
  by (simp add: job_run_step_def)

lemma job_run_step_returned:
  "pc (workers s j) = Returned \<Longrightarrow> job_run_step E j s = s"
  by (simp add: job_run_step_def)

text \<open>
  C1, as amended. For a job whose \<open>canceled\<close> flag is set when \<open>job_run\<close> tests it, and
  whose future holds no result yet, \<open>job_run\<close> does not call the run function (the trace
  grows by the locking and unlocking of the job, the locking and unlocking of the
  executor, and \<open>future_setResult\<close>), leaves the state of the job as it was, and
  publishes the status 0, the null result and the canceled indication in the future.
\<close>

theorem job_run_canceled:
  assumes "canceled (jobs s j)" and "fresult (futures s (future (jobs s j))) = None"
  shows "state (jobs (job_run E j s) j) = state (jobs s j) \<and>
     trace (job_run E j s) = trace s @
       [Job_lock j, Job_unlock j, Executor_lock, Executor_unlock,
        Future_setResult (future (jobs s j)) 0 NULL True] \<and>
     fresult (futures (job_run E j s) (future (jobs s j))) = Some (0, NULL, True) \<and>
     pc (workers (job_run E j s) j) = Returned"
proof -
  let ?s0 = "upd_worker j (\<lambda>w. w\<lparr>pc := At_entry\<rparr>) s"
  let ?s1 = "job_run_step E j ?s0"
  let ?s2 = "job_run_step E j ?s1"
  let ?s3 = "job_run_step E j ?s2"
  have s1: "pc (workers ?s1 j) = At_remove" "jobs ?s1 = jobs s" "futures ?s1 = futures s"
    "trace ?s1 = trace s @ [Job_lock j, Job_unlock j]"
    "run_status (workers ?s1 j) = 0" "run_result (workers ?s1 j) = NULL"
    using assms(1) by (simp_all add: job_run_step_entry)
  have s2: "pc (workers ?s2 j) = At_publish" "futures ?s2 = futures s"
    "state (jobs ?s2 j) = state (jobs s j)" "canceled (jobs ?s2 j)"
    "future (jobs ?s2 j) = future (jobs s j)"
    "trace ?s2 = trace s @ [Job_lock j, Job_unlock j, Executor_lock, Executor_unlock]"
    "run_status (workers ?s2 j) = 0" "run_result (workers ?s2 j) = NULL"
    using assms(1) s1 by (simp_all add: job_run_step_remove)
  have s3: "pc (workers ?s3 j) = Returned"
    "state (jobs ?s3 j) = state (jobs s j)"
    "trace ?s3 = trace s @ [Job_lock j, Job_unlock j, Executor_lock, Executor_unlock,
        Future_setResult (future (jobs s j)) 0 NULL True]"
    "fresult (futures ?s3 (future (jobs s j))) = Some (0, NULL, True)"
    using assms(2) s2 by (simp_all add: job_run_step_publish future_setResult_futures)
  have "job_run E j s = ?s3"
    using s3(1) by (simp add: job_run_def job_run_step_returned)
  with s3 show ?thesis by simp
qed

lemma sys_canceled_flag: "canceled (jobs sys_canceled 32)"
  by code_simp

lemma sys_canceled_future: "fresult (futures sys_canceled (future (jobs sys_canceled 32))) = None"
  by code_simp

lemma sys_canceled_state: "state (jobs sys_canceled 32) = JOB_INITIALIZED"
  by code_simp

theorem job_run_canceled_witness:
  "canceled (jobs sys_canceled 32) \<and>
   fresult (futures sys_canceled (future (jobs sys_canceled 32))) = None \<and>
   state (jobs (job_run env_ok 32 sys_canceled) 32) = JOB_INITIALIZED \<and>
   fresult (futures (job_run env_ok 32 sys_canceled) (future (jobs sys_canceled 32))) =
     Some (0, NULL, True) \<and>
   pc (workers (job_run env_ok 32 sys_canceled) 32) = Returned"
  using job_run_canceled [OF sys_canceled_flag sys_canceled_future, of env_ok]
    sys_canceled_flag sys_canceled_future sys_canceled_state
  by simp

text \<open>
  C1, as stated, fails: the job submitted in \<open>sys_submitted\<close> and cancelled before its
  worker runs is not marked \<open>JOB_COMPLETED\<close> by \<open>job_run\<close>; its state stays
  \<open>JOB_INITIALIZED\<close>.
\<close>

theorem job_run_canceled_counterexample:
  "canceled (jobs sys_canceled 32) \<and> pc (workers sys_canceled 32) = At_entry \<and>
   state (jobs (job_run env_ok 32 sys_canceled) 32) \<noteq> JOB_COMPLETED"
  by code_simp

lemma step_coherent:
  assumes "coherent s j"
  shows "coherent (step E a s) j \<and> forward (state (jobs s j)) (state (jobs (step E a s) j))"
proof (cases a)
  case (Worker j')
  show ?thesis
  proof (cases "pc (workers s j')")
    case At_entry
    with assms Worker show ?thesis
      by (auto simp: step_def coherent_def forward_def job_run_step_entry split: label.splits)
  next
    case At_call
    with assms Worker show ?thesis
      by (auto simp: step_def coherent_def forward_def job_run_step_call split: label.splits)
  next
    case At_completion
    with assms Worker show ?thesis
      by (auto simp: step_def coherent_def forward_def job_run_step_completion split: label.splits)
  next
    case At_remove
    with assms Worker show ?thesis
      by (auto simp: step_def coherent_def forward_def job_run_step_remove split: label.splits)
  next
    case At_publish
    with assms Worker show ?thesis
      by (auto simp: step_def coherent_def forward_def job_run_step_publish split: label.splits)
  next
    case Returned
    with assms Worker show ?thesis
      by (auto simp: step_def coherent_def forward_def job_run_step_returned split: label.splits)
  qed
next
  case (Cancel j')
  with assms show ?thesis
    by (auto simp: step_def coherent_def forward_def split: label.splits)
qed

lemma run_ops_coherent: "coherent s j \<Longrightarrow> coherent (run_ops E ops s) j"
  by (induction ops arbitrary: s) (simp_all add: step_coherent)

text \<open>
  C2. Take a job that is initialised and whose worker stands at the entry of \<open>job_run\<close>.
  After any sequence of operations (steps of the worker of any job, calls of
  \<open>job_cancel\<close> on any job), any further operation leaves the state of the job as it is,
  or moves it from \<open>JOB_INITIALIZED\<close> to \<open>JOB_EXECUTING\<close>, or from \<open>JOB_EXECUTING\<close> to
  \<open>JOB_COMPLETED\<close>: the state never moves back and \<open>JOB_EXECUTING\<close> is never skipped.
\<close>

theorem job_state_forward:
  assumes "state (jobs s j) = JOB_INITIALIZED" "pc (workers s j) = At_entry"
  shows "forward (state (jobs (run_ops E ops s) j)) (state (jobs (step E a (run_ops E ops s)) j))"
proof -
  have "coherent s j"
    using assms by (simp add: coherent_def)
  then have "coherent (run_ops E ops s) j"
    by (rule run_ops_coherent)
  then show ?thesis
    by (simp add: step_coherent)
qed


lemma sys_submitted_state: "state (jobs sys_submitted 32) = JOB_INITIALIZED"
  by code_simp

lemma sys_submitted_pc: "pc (workers sys_submitted 32) = At_entry"
  by code_simp

lemma sys_submitted_ops_before:
  "state (jobs (run_ops env_ok [Worker 32, Cancel 32, Worker 32] sys_submitted) 32) = JOB_EXECUTING"
  by code_simp

lemma sys_submitted_ops_after:
  "state (jobs (step env_ok (Worker 32)
      (run_ops env_ok [Worker 32, Cancel 32, Worker 32] sys_submitted)) 32) = JOB_COMPLETED"
  by code_simp

theorem job_state_forward_witness:
  "state (jobs sys_submitted 32) = JOB_INITIALIZED \<and> pc (workers sys_submitted 32) = At_entry \<and>
   forward (state (jobs (run_ops env_ok [Worker 32, Cancel 32, Worker 32] sys_submitted) 32))
     (state (jobs (step env_ok (Worker 32)
        (run_ops env_ok [Worker 32, Cancel 32, Worker 32] sys_submitted)) 32)) \<and>
   state (jobs (run_ops env_ok [Worker 32, Cancel 32, Worker 32] sys_submitted) 32) = JOB_EXECUTING \<and>
   state (jobs (step env_ok (Worker 32)
      (run_ops env_ok [Worker 32, Cancel 32, Worker 32] sys_submitted)) 32) = JOB_COMPLETED"
  using job_state_forward [OF sys_submitted_state sys_submitted_pc, of env_ok
      "[Worker 32, Cancel 32, Worker 32]" "Worker 32"]
    sys_submitted_state sys_submitted_pc sys_submitted_ops_before sys_submitted_ops_after
  by simp

subsection \<open>Removal from the list before publication\<close>

lemma jobList_inv_links:
  assumes "\<And>a. prev (jobs t a) = prev (jobs s a) \<and> next_job (jobs t a) = next_job (jobs s a)"
    and "jobList t = jobList s"
  shows "jobList_inv t xs = jobList_inv s xs"
proof -
  have "dseg (jobs t) NULL (head (jobList s)) xs NULL = dseg (jobs s) NULL (head (jobList s)) xs NULL"
    using assms(1) by (intro dseg_links_cong) simp
  with assms(2) show ?thesis
    by (simp add: jobList_inv_def)
qed

lemma step_future [simp]: "future (jobs (step E a s) x) = future (jobs s x)"
proof (cases a)
  case (Worker j)
  then show ?thesis
    by (cases "pc (workers s j)")
      (simp_all add: step_def job_run_step_entry job_run_step_call job_run_step_completion
        job_run_step_remove job_run_step_publish job_run_step_returned)
next
  case (Cancel j)
  then show ?thesis by (simp add: step_def)
qed

lemma executor_remove_inv:
  "jobList_inv s xs \<Longrightarrow> j \<in> set xs \<Longrightarrow> jobList_inv (executor_remove j s) (remove1 j xs)"
proof -
  assume a: "jobList_inv s xs" "j \<in> set xs"
  have "jobList_inv (emit Executor_lock s) xs"
    using a(1) by (simp add: jobList_inv_def)
  then have "jobList_inv (jobList_remove j (emit Executor_lock s)) (remove1 j xs)"
    using a(2) by (rule jobList_remove_inv)
  then show ?thesis
    by (simp add: executor_remove_def jobList_inv_def)
qed

lemma jobList_inv_distinct: "jobList_inv s xs \<Longrightarrow> distinct xs"
  by (auto simp: jobList_inv_def dest: dseg_distinct)

lemma sys_inv_local:
  assumes inv: "sys_inv J s xs"
    and links: "\<And>a. prev (jobs t a) = prev (jobs s a) \<and> next_job (jobs t a) = next_job (jobs s a) \<and>
                  future (jobs t a) = future (jobs s a)"
    and same: "jobList t = jobList s" "futures t = futures s"
    and others: "\<And>x. x \<noteq> j \<Longrightarrow> workers t x = workers s x"
    and act: "active (pc (workers t j)) = active (pc (workers s j))"
    and ret: "pc (workers s j) = Returned \<Longrightarrow> pc (workers t j) = Returned"
  shows "sys_inv J t xs"
proof -
  have li: "jobList_inv s xs"
    and mem: "set xs = set (filter (\<lambda>j. active (pc (workers s j))) J)"
    and pub: "\<And>x. x \<in> set J \<Longrightarrow>
        fresult (futures s (future (jobs s x))) = None \<or> pc (workers s x) = Returned"
    and dis: "distinct (map (\<lambda>j. future (jobs s j)) J)"
    using inv by (simp_all add: sys_inv_def list_all_iff)
  have "jobList_inv t xs = jobList_inv s xs"
    using links same(1) by (intro jobList_inv_links) simp_all
  moreover have "\<And>x. active (pc (workers t x)) = active (pc (workers s x))"
    using others act by (case_tac "x = j") simp_all
  moreover have "\<And>x. x \<in> set J \<Longrightarrow>
      fresult (futures t (future (jobs t x))) = None \<or> pc (workers t x) = Returned"
  proof -
    fix x assume x: "x \<in> set J"
    show "fresult (futures t (future (jobs t x))) = None \<or> pc (workers t x) = Returned"
      using pub [OF x] links same(2) others [of x] ret by (cases "x = j") auto
  qed
  moreover have "(\<lambda>x. future (jobs t x)) = (\<lambda>x. future (jobs s x))"
    using links by simp
  ultimately show ?thesis
    using li mem dis by (simp add: sys_inv_def list_all_iff)
qed

lemma sys_inv_cancel:
  assumes "sys_inv J s xs"
  shows "sys_inv J (snd (job_cancel E j s)) xs"
  using assms by (rule sys_inv_local [where j = j]) simp_all

lemma sys_inv_worker:
  assumes inv: "sys_inv J s xs" and j: "j \<in> set J"
  shows "\<exists>xs'. sys_inv J (job_run_step E j s) xs'"
proof -
  have li: "jobList_inv s xs"
    and mem: "set xs = set (filter (\<lambda>j. active (pc (workers s j))) J)"
    and pub: "\<And>x. x \<in> set J \<Longrightarrow>
        fresult (futures s (future (jobs s x))) = None \<or> pc (workers s x) = Returned"
    and dis: "distinct (map (\<lambda>j. future (jobs s j)) J)"
    using inv by (simp_all add: sys_inv_def list_all_iff)
  let ?t = "job_run_step E j s"
  show ?thesis
  proof (cases "pc (workers s j)")
    case At_entry
    have "sys_inv J ?t xs"
      using inv by (rule sys_inv_local [where j = j])
        (simp_all add: job_run_step_entry At_entry active_def)
    then show ?thesis ..
  next
    case At_call
    have "sys_inv J ?t xs"
      using inv by (rule sys_inv_local [where j = j])
        (simp_all add: job_run_step_call At_call active_def)
    then show ?thesis ..
  next
    case At_completion
    have "sys_inv J ?t xs"
      using inv by (rule sys_inv_local [where j = j])
        (simp_all add: job_run_step_completion At_completion active_def)
    then show ?thesis ..
  next
    case At_remove
    have jx: "j \<in> set xs"
      using mem j At_remove by (simp add: active_def)
    have "jobList_inv (executor_remove j s) (remove1 j xs)"
      using li jx by (rule executor_remove_inv)
    then have "jobList_inv ?t (remove1 j xs)"
      by (simp add: job_run_step_remove At_remove jobList_inv_def)
    moreover have "set (remove1 j xs) = set (filter (\<lambda>x. active (pc (workers ?t x))) J)"
      using mem At_remove jobList_inv_distinct [OF li]
      by (auto simp: job_run_step_remove active_def)
    moreover have "\<And>x. x \<in> set J \<Longrightarrow>
        fresult (futures ?t (future (jobs ?t x))) = None \<or> pc (workers ?t x) = Returned"
    proof -
      fix x assume x: "x \<in> set J"
      show "fresult (futures ?t (future (jobs ?t x))) = None \<or> pc (workers ?t x) = Returned"
        using pub [OF x] At_remove by (cases "x = j") (auto simp: job_run_step_remove)
    qed
    moreover have "(\<lambda>x. future (jobs ?t x)) = (\<lambda>x. future (jobs s x))"
      using At_remove by (simp add: job_run_step_remove)
    ultimately have "sys_inv J ?t (remove1 j xs)"
      using dis by (simp add: sys_inv_def list_all_iff)
    then show ?thesis ..
  next
    case At_publish
    have "jobList_inv ?t xs = jobList_inv s xs"
      by (rule jobList_inv_links) (simp_all add: job_run_step_publish At_publish)
    moreover have "set (filter (\<lambda>x. active (pc (workers ?t x))) J) =
        set (filter (\<lambda>x. active (pc (workers s x))) J)"
      using At_publish by (auto simp: job_run_step_publish active_def)
    moreover have "\<And>x. x \<in> set J \<Longrightarrow>
        fresult (futures ?t (future (jobs ?t x))) = None \<or> pc (workers ?t x) = Returned"
    proof -
      fix x assume x: "x \<in> set J"
      show "fresult (futures ?t (future (jobs ?t x))) = None \<or> pc (workers ?t x) = Returned"
      proof (cases "x = j")
        case True
        then show ?thesis
          using At_publish by (simp add: job_run_step_publish)
      next
        case False
        with dis x j have "future (jobs s x) \<noteq> future (jobs s j)"
          by (auto simp: distinct_map inj_on_def)
        with pub [OF x] False At_publish show ?thesis
          by (auto simp: job_run_step_publish future_setResult_futures)
      qed
    qed
    moreover have "(\<lambda>x. future (jobs ?t x)) = (\<lambda>x. future (jobs s x))"
      using At_publish by (simp add: job_run_step_publish)
    ultimately have "sys_inv J ?t xs"
      using li mem dis by (simp add: sys_inv_def list_all_iff)
    then show ?thesis ..
  next
    case Returned
    with inv show ?thesis
      by (auto simp: job_run_step_returned)
  qed
qed

lemma sys_inv_step:
  assumes "sys_inv J s xs" "op_ok J a"
  shows "\<exists>xs'. sys_inv J (step E a s) xs'"
proof (cases a)
  case (Worker j)
  with assms show ?thesis
    by (simp add: step_def op_ok_def sys_inv_worker)
next
  case (Cancel j)
  have "sys_inv J (snd (job_cancel E j s)) xs"
    using assms(1) by (rule sys_inv_cancel)
  with Cancel show ?thesis
    by (auto simp: step_def)
qed

lemma sys_inv_run_ops:
  "sys_inv J s xs \<Longrightarrow> list_all (op_ok J) ops \<Longrightarrow> \<exists>xs'. sys_inv J (run_ops E ops s) xs'"
proof (induction ops arbitrary: s xs)
  case Nil
  then show ?case by auto
next
  case (Cons a ops)
  from Cons.prems obtain ys where "sys_inv J (step E a s) ys"
    using sys_inv_step [of J s xs a E] by auto
  with Cons.IH [of "step E a s" ys] Cons.prems(2) show ?case
    by simp
qed


lemma job_run_trace:
  "\<exists>evs st r c. trace (job_run E j s) =
     trace s @ evs @ [Executor_lock, Executor_unlock, Future_setResult (future (jobs s j)) st r c]"
proof -
  let ?s0 = "upd_worker j (\<lambda>w. w\<lparr>pc := At_entry\<rparr>) s"
  let ?s1 = "job_run_step E j ?s0"
  let ?s2 = "job_run_step E j ?s1"
  let ?s3 = "job_run_step E j ?s2"
  let ?s4 = "job_run_step E j ?s3"
  let ?s5 = "job_run_step E j ?s4"
  have run: "job_run E j s = ?s5"
    by (simp add: job_run_def)
  show ?thesis
  proof (cases "canceled (jobs s j)")
    case True
    have s1: "pc (workers ?s1 j) = At_remove" "future (jobs ?s1 j) = future (jobs s j)"
      "trace ?s1 = trace s @ [Job_lock j, Job_unlock j]"
      using True by (simp_all add: job_run_step_entry)
    have s2: "pc (workers ?s2 j) = At_publish" "future (jobs ?s2 j) = future (jobs s j)"
      "trace ?s2 = trace s @ [Job_lock j, Job_unlock j] @ [Executor_lock, Executor_unlock]"
      using s1 by (simp_all add: job_run_step_remove)
    have s3: "pc (workers ?s3 j) = Returned"
      "trace ?s3 = trace s @ [Job_lock j, Job_unlock j] @ [Executor_lock, Executor_unlock,
        Future_setResult (future (jobs s j)) (run_status (workers ?s2 j))
          (run_result (workers ?s2 j)) (canceled (jobs ?s2 j))]"
      using s2 by (simp_all add: job_run_step_publish)
    have "?s5 = ?s3"
      using s3(1) by (simp add: job_run_step_returned)
    with run s3(2) show ?thesis
      by metis
  next
    case False
    have s1: "pc (workers ?s1 j) = At_call" "future (jobs ?s1 j) = future (jobs s j)"
      "trace ?s1 = trace s @ [Job_lock j, Job_unlock j]"
      using False by (simp_all add: job_run_step_entry)
    have s2: "pc (workers ?s2 j) = At_completion" "future (jobs ?s2 j) = future (jobs s j)"
      "trace ?s2 = trace s @ [Job_lock j, Job_unlock j, Call_run j (run (jobs ?s1 j)) (obj (jobs ?s1 j))]"
      using s1 by (simp_all add: job_run_step_call)
    have s3: "pc (workers ?s3 j) = At_remove" "future (jobs ?s3 j) = future (jobs s j)"
      "trace ?s3 = trace s @ [Job_lock j, Job_unlock j, Call_run j (run (jobs ?s1 j)) (obj (jobs ?s1 j)),
         Job_lock j, Job_unlock j]"
      using s2 by (simp_all add: job_run_step_completion)
    have s4: "pc (workers ?s4 j) = At_publish" "future (jobs ?s4 j) = future (jobs s j)"
      "trace ?s4 = trace s @ [Job_lock j, Job_unlock j, Call_run j (run (jobs ?s1 j)) (obj (jobs ?s1 j)),
         Job_lock j, Job_unlock j] @ [Executor_lock, Executor_unlock]"
      using s3 by (simp_all add: job_run_step_remove)
    have s5: "trace ?s5 = trace s @ [Job_lock j, Job_unlock j, Call_run j (run (jobs ?s1 j)) (obj (jobs ?s1 j)),
         Job_lock j, Job_unlock j] @ [Executor_lock, Executor_unlock,
        Future_setResult (future (jobs s j)) (run_status (workers ?s4 j))
          (run_result (workers ?s4 j)) (canceled (jobs ?s4 j))]"
      using s4 by (simp_all add: job_run_step_publish)
    with run show ?thesis
      by metis
  qed
qed

text \<open>
  C5. In \<open>job_run\<close> the call of \<open>executor_remove\<close> comes before the call of
  \<open>future_setResult\<close>: they are the last events of the trace of \<open>job_run\<close>, in this order.
  Let the list hold the submitted jobs \<open>J\<close>, with different futures that hold no result,
  and their workers at the entry of \<open>job_run\<close>; let the workers of these jobs run, in any
  interleaving with each other and with calls of \<open>job_cancel\<close>. At any point where the
  future of a job of \<open>J\<close> holds a result, the worker of the job has returned from
  \<open>job_run\<close>, the job is not a member of the list, \<open>executor_size\<close> returns the number of
  the members, and \<open>jobList_cancelAll\<close> calls \<open>future_cancel\<close> on the futures of the
  members only, not on the future of the job.
\<close>

theorem remove_before_publish:
  assumes inv0: "jobList_inv s0 J"
    and init: "list_all (\<lambda>j. pc (workers s0 j) = At_entry \<and>
                  fresult (futures s0 (future (jobs s0 j))) = None) J"
    and futs: "distinct (map (\<lambda>j. future (jobs s0 j)) J)"
    and ops: "list_all (op_ok J) ops"
    and j: "j \<in> set J"
    and pub: "fresult (futures (run_ops E ops s0) (future (jobs (run_ops E ops s0) j))) \<noteq> None"
  shows "(\<exists>evs st r c. trace (job_run E j s0) =
            trace s0 @ evs @ [Executor_lock, Executor_unlock,
                              Future_setResult (future (jobs s0 j)) st r c]) \<and>
     (let s = run_ops E ops s0
      in pc (workers s j) = Returned \<and>
         (\<exists>xs. jobList_inv s xs \<and> j \<notin> set xs \<and>
               unat (fst (executor_size s)) = length xs \<and>
               jobList_cancelAll E' s =
                 Some (first_nonzero (fst (cancel_each E' xs s)), snd (cancel_each E' xs s)) \<and>
               future (jobs s j) \<notin>
                 set (drop (length (future_cancels (trace s)))
                        (future_cancels (trace (snd (cancel_each E' xs s)))))))"
proof -
  let ?s = "run_ops E ops s0"
  have "set J = set (filter (\<lambda>j. active (pc (workers s0 j))) J)"
    using init by (auto simp: list_all_iff active_def)
  then have "sys_inv J s0 J"
    using inv0 init futs by (auto simp: sys_inv_def list_all_iff)
  then obtain xs where inv: "sys_inv J ?s xs"
    using sys_inv_run_ops [OF _ ops] by blast
  then have li: "jobList_inv ?s xs"
    and mem: "set xs = set (filter (\<lambda>j. active (pc (workers ?s j))) J)"
    and pb: "\<And>x. x \<in> set J \<Longrightarrow>
        fresult (futures ?s (future (jobs ?s x))) = None \<or> pc (workers ?s x) = Returned"
    and dis: "distinct (map (\<lambda>j. future (jobs ?s j)) J)"
    by (simp_all add: sys_inv_def list_all_iff)
  have ret: "pc (workers ?s j) = Returned"
    using pb [OF j] pub by simp
  then have nin: "j \<notin> set xs"
    using mem by (simp add: active_def)
  have sz: "unat (fst (executor_size ?s)) = length xs"
    using li by (simp add: executor_size_def Let_def jobList_size_def jobList_inv_def)
  have ca: "jobList_cancelAll E' ?s =
      Some (first_nonzero (fst (cancel_each E' xs ?s)), snd (cancel_each E' xs ?s))"
    using li by (rule jobList_cancelAll_inv)
  have "future (jobs ?s j) \<notin> set (map (\<lambda>x. future (jobs ?s x)) xs)"
  proof
    assume "future (jobs ?s j) \<in> set (map (\<lambda>x. future (jobs ?s x)) xs)"
    then obtain x where x: "x \<in> set xs" "future (jobs ?s x) = future (jobs ?s j)"
      by auto
    from x(1) mem have "x \<in> set J" by auto
    with dis j x(2) have "x = j"
      by (auto simp: distinct_map inj_on_def)
    with x(1) nin show False by simp
  qed
  then have fc: "future (jobs ?s j) \<notin>
      set (drop (length (future_cancels (trace ?s)))
             (future_cancels (trace (snd (cancel_each E' xs ?s)))))"
    by (simp add: cancel_each_future_cancels)
  show ?thesis
    using job_run_trace [of E j s0] ret li nin sz ca fc
    by (simp add: Let_def) blast
qed


lemma sys_two_inv: "jobList_inv sys_two [32, 176]"
  by code_simp

lemma sys_two_init:
  "list_all (\<lambda>j. pc (workers sys_two j) = At_entry \<and>
      fresult (futures sys_two (future (jobs sys_two j))) = None) [32, 176]"
  by code_simp

lemma sys_two_futures: "distinct (map (\<lambda>j. future (jobs sys_two j)) [32, 176])"
  by code_simp

lemma ops_example_ok: "list_all (op_ok [32, 176]) ops_example"
  by code_simp

lemma sys_two_published:
  "fresult (futures (run_ops env_ok ops_example sys_two)
      (future (jobs (run_ops env_ok ops_example sys_two) 32))) = Some (7, 5, False)"
  by code_simp

lemma sys_two_size: "fst (executor_size (run_ops env_ok ops_example sys_two)) = 1"
  by code_simp

theorem remove_before_publish_witness:
  "jobList_inv sys_two [32, 176] \<and>
   list_all (op_ok [32, 176]) ops_example \<and>
   fresult (futures (run_ops env_ok ops_example sys_two)
      (future (jobs (run_ops env_ok ops_example sys_two) 32))) = Some (7, 5, False) \<and>
   pc (workers (run_ops env_ok ops_example sys_two) 32) = Returned \<and>
   (\<exists>xs. jobList_inv (run_ops env_ok ops_example sys_two) xs \<and> 32 \<notin> set xs \<and>
         unat (fst (executor_size (run_ops env_ok ops_example sys_two))) = length xs) \<and>
   fst (executor_size (run_ops env_ok ops_example sys_two)) = 1"
proof -
  have mem: "32 \<in> set [32, 176 :: addr]"
    by simp
  have pub: "fresult (futures (run_ops env_ok ops_example sys_two)
      (future (jobs (run_ops env_ok ops_example sys_two) 32))) \<noteq> None"
    by (simp add: sys_two_published)
  note th = remove_before_publish [OF sys_two_inv sys_two_init sys_two_futures ops_example_ok
      mem pub, of env_ok, unfolded Let_def]
  from th have "pc (workers (run_ops env_ok ops_example sys_two) 32) = Returned"
    by blast
  moreover from th have "\<exists>xs. jobList_inv (run_ops env_ok ops_example sys_two) xs \<and> 32 \<notin> set xs \<and>
         unat (fst (executor_size (run_ops env_ok ops_example sys_two))) = length xs"
    by blast
  ultimately show ?thesis
    using sys_two_inv ops_example_ok sys_two_published sys_two_size by blast
qed

end
